theory Spec2Isabelle
  imports Complex_Main "HOL-Library.Log_Nat"
begin

section \<open>Strings\<close>

text \<open>
  The server is JavaScript; its strings are sequences of code units. The model uses
  \<^typ>\<open>string\<close> and reads a \<^typ>\<open>char\<close> as the code unit of the same number, so it
  covers the code units 0 to 255 (ASCII and Latin-1). On this range
  \<^verbatim>\<open>String.prototype.toLowerCase\<close> moves A-Z and the accented capitals 192-222 (but not
  the multiplication sign 215) up by 32, and \<^verbatim>\<open>String.prototype.trim\<close> removes TAB, LF,
  VT, FF, CR, SPACE and NBSP from both ends.
\<close>

definition toLowerCase_char :: "char \<Rightarrow> char" where
  "toLowerCase_char c =
     (let n = (of_char c :: nat)
      in if (65 \<le> n \<and> n \<le> 90) \<or> (192 \<le> n \<and> n \<le> 222 \<and> n \<noteq> 215)
         then char_of (n + 32) else c)"

definition toLowerCase :: "string \<Rightarrow> string" where
  "toLowerCase s = map toLowerCase_char s"

definition isWhiteSpace :: "char \<Rightarrow> bool" where
  "isWhiteSpace c = ((of_char c :: nat) \<in> {9, 10, 11, 12, 13, 32, 160})"

definition trim :: "string \<Rightarrow> string" where
  "trim s = rev (dropWhile isWhiteSpace (rev (dropWhile isWhiteSpace s)))"

text \<open>
  The comparison of \<^verbatim>\<open>app.post('/answer')\<close>:
  \<^verbatim>\<open>userAnswer.toLowerCase().trim() === currentAnswer.toLowerCase().trim()\<close>.
\<close>

definition grade :: "string \<Rightarrow> string \<Rightarrow> bool" where
  "grade userAnswer expected = (trim (toLowerCase userAnswer) = trim (toLowerCase expected))"

section \<open>The question store\<close>

record QuestionRecord =
  question :: string
  answer :: string

definition maxTriviaQuestions :: nat where
  "maxTriviaQuestions = 100"

text \<open>
  \<^verbatim>\<open>storeTriviaQuestion\<close>: \<^verbatim>\<open>some\<close> looks for the question text, \<^verbatim>\<open>push\<close> appends,
  \<^verbatim>\<open>shift\<close> removes the first record.
\<close>

definition storeTriviaQuestion ::
    "string \<Rightarrow> string \<Rightarrow> QuestionRecord list \<Rightarrow> QuestionRecord list" where
  "storeTriviaQuestion q a triviaQuestions =
     (if list_ex (\<lambda>r. question r = q) triviaQuestions then triviaQuestions
      else let pushed = triviaQuestions @ [\<lparr>question = q, answer = a\<rparr>]
           in if length pushed > maxTriviaQuestions then tl pushed else pushed)"

text \<open>A sequence of calls of \<^verbatim>\<open>storeTriviaQuestion\<close>, in order.\<close>

fun storeAll :: "(string \<times> string) list \<Rightarrow> QuestionRecord list \<Rightarrow> QuestionRecord list" where
  "storeAll [] tq = tq"
| "storeAll ((q, a) # rest) tq = storeAll rest (storeTriviaQuestion q a tq)"

definition mkRecord :: "string \<times> string \<Rightarrow> QuestionRecord" where
  "mkRecord p = \<lparr>question = fst p, answer = snd p\<rparr>"

text \<open>A supply of pairwise different question texts, for examples.\<close>

definition numbered :: "nat \<Rightarrow> string \<times> string" where
  "numbered n = (replicate n CHR ''?'', ''yes'')"

section \<open>Parsing the generated text\<close>

text \<open>
  The handler of \<^verbatim>\<open>GET /question\<close> parses the reply with
  \<^verbatim>\<open>text.match(/Question:\s*([\s\S]*?)\s*Answer:\s*([\s\S]*)/i)\<close>. The pattern is modelled as
  ECMAScript defines matching: every pattern part is a matcher that takes the rest of the
  input and a continuation, tries its alternatives in priority order (a greedy star the
  longest first, a lazy star the shortest first) and returns the first alternative whose
  continuation succeeds.
\<close>

type_synonym 'r cont = "string \<Rightarrow> 'r option"

fun first_some :: "('a \<Rightarrow> 'b option) \<Rightarrow> 'a list \<Rightarrow> 'b option" where
  "first_some f [] = None"
| "first_some f (x # xs) = (case f x of Some y \<Rightarrow> Some y | None \<Rightarrow> first_some f xs)"

text \<open>
  The flag \<^verbatim>\<open>i\<close> compares characters after \<^verbatim>\<open>Canonicalize\<close>, which upper-cases a code
  unit: a-z and the accented small letters 224-254 (but not the division sign 247) move
  down by 32, 255 and 181 have capitals outside Latin-1, 223 has none of one code unit.
\<close>

definition canonicalize :: "char \<Rightarrow> nat" where
  "canonicalize c =
     (let n = (of_char c :: nat)
      in if 97 \<le> n \<and> n \<le> 122 then n - 32
         else if 224 \<le> n \<and> n \<le> 254 \<and> n \<noteq> 247 then n - 32
         else if n = 255 then 376
         else if n = 181 then 924
         else n)"

fun ci_prefix :: "string \<Rightarrow> string \<Rightarrow> bool" where
  "ci_prefix [] s = True"
| "ci_prefix (p # ps) [] = False"
| "ci_prefix (p # ps) (c # cs) = (canonicalize p = canonicalize c \<and> ci_prefix ps cs)"

definition lit_ci :: "string \<Rightarrow> 'r cont \<Rightarrow> 'r cont" where
  "lit_ci l k s = (if ci_prefix l s then k (drop (length l) s) else None)"

definition ws_star :: "'r cont \<Rightarrow> 'r cont" where
  "ws_star k s =
     first_some (\<lambda>i. k (drop i s)) (rev [0..<Suc (length (takeWhile isWhiteSpace s))])"

definition any_lazy :: "(string \<Rightarrow> 'r cont) \<Rightarrow> 'r cont" where
  "any_lazy k s = first_some (\<lambda>j. k (take j s) (drop j s)) [0..<Suc (length s)]"

definition any_greedy :: "(string \<Rightarrow> 'r cont) \<Rightarrow> 'r cont" where
  "any_greedy k s = first_some (\<lambda>j. k (take j s) (drop j s)) (rev [0..<Suc (length s)])"

definition qa_pattern :: "(string \<times> string) cont" where
  "qa_pattern =
     lit_ci ''Question:'' (ws_star (any_lazy (\<lambda>g1.
       ws_star (lit_ci ''Answer:'' (ws_star (any_greedy (\<lambda>g2 rest. Some (g1, g2))))))))"

text \<open>\<^verbatim>\<open>match\<close> without the flag \<^verbatim>\<open>g\<close> returns the match at the leftmost start position.\<close>

definition match_qa :: "string \<Rightarrow> (string \<times> string) option" where
  "match_qa text = first_some (\<lambda>i. qa_pattern (drop i text)) [0..<Suc (length text)]"

text \<open>
  \<^verbatim>\<open>text.split(/Answer:/i)\<close> cuts at every occurrence found from left to right;
  \<^verbatim>\<open>replace(/Question:/i, '')\<close> removes the first occurrence; \<^verbatim>\<open>join('Answer:')\<close> puts
  the separator between the parts.
\<close>

fun split_ci :: "string \<Rightarrow> string \<Rightarrow> string list" where
  "split_ci sep [] = [[]]"
| "split_ci sep (c # cs) =
     (if sep \<noteq> [] \<and> ci_prefix sep (c # cs) then [] # split_ci sep (drop (length sep) (c # cs))
      else (case split_ci sep cs of [] \<Rightarrow> [[c]] | p # ps \<Rightarrow> (c # p) # ps))"

fun remove_first_ci :: "string \<Rightarrow> string \<Rightarrow> string" where
  "remove_first_ci pat [] = []"
| "remove_first_ci pat (c # cs) =
     (if ci_prefix pat (c # cs) then drop (length pat) (c # cs) else c # remove_first_ci pat cs)"

fun join :: "string \<Rightarrow> string list \<Rightarrow> string" where
  "join sep [] = []"
| "join sep [x] = x"
| "join sep (x # y # ys) = x @ sep @ join sep (y # ys)"

text \<open>
  The two strategies of the handler; \<^const>\<open>None\<close> is the pair \<^verbatim>\<open>question = null\<close>,
  \<^verbatim>\<open>answer = null\<close>.
\<close>

definition parseQA :: "string \<Rightarrow> (string \<times> string) option" where
  "parseQA text =
     (case match_qa text of
        Some (m1, m2) \<Rightarrow> Some (trim m1, trim m2)
      | None \<Rightarrow>
          (let parts = split_ci ''Answer:'' text
           in if length parts \<ge> 2
              then Some (trim (remove_first_ci ''Question:'' (hd parts)),
                         trim (join ''Answer:'' (tl parts)))
              else None))"

text \<open>
  The index of the first occurrence of a label in a string, compared as the flag \<^verbatim>\<open>i\<close>
  compares.
\<close>

fun find_ci :: "string \<Rightarrow> string \<Rightarrow> nat option" where
  "find_ci l [] = (if ci_prefix l [] then Some 0 else None)"
| "find_ci l (c # cs) = (if ci_prefix l (c # cs) then Some 0 else map_option Suc (find_ci l cs))"

text \<open>
  The strict shape in the words of the specification, to compare the pattern with: the
  first "Question:" label, then the first "Answer:" label after it; the question is the
  text between the two labels, the answer is the text after the second label.
\<close>

definition strict_shape :: "string \<Rightarrow> (string \<times> string) option" where
  "strict_shape text =
     (case find_ci ''Question:'' text of
        None \<Rightarrow> None
      | Some i \<Rightarrow>
          (let rest = drop (i + length ''Question:'') text
           in case find_ci ''Answer:'' rest of
                None \<Rightarrow> None
              | Some j \<Rightarrow> Some (take j rest, drop (j + length ''Answer:'') rest)))"

text \<open>A string without its trailing whitespace.\<close>

definition strip_trailing :: "string \<Rightarrow> string" where
  "strip_trailing x = rev (dropWhile isWhiteSpace (rev x))"

section \<open>Numbers and objects of the language\<close>

text \<open>
  A number is an IEEE 754 double. A double is a multiple of \<open>2 ^ - 1074\<close> with at most 53
  significant bits; an arithmetic operation returns the exact result rounded to the
  nearest double, a tie to the one with the even significand. \<^verbatim>\<open>Math.random()\<close> returns a
  double that is at least 0 and less than 1. The rounding is written for results that are
  not negative and below \<open>2 ^ 1024\<close>.
\<close>

definition precision :: nat where
  "precision = 53"

definition emin :: nat where
  "emin = 1074"

definition round_half_even :: "rat \<Rightarrow> int" where
  "round_half_even z =
     (let f = \<lfloor>z\<rfloor>; d = z - of_int f
      in if d < 1 / 2 then f else if 1 / 2 < d then f + 1 else if even f then f else f + 1)"

definition double_round :: "rat \<Rightarrow> rat" where
  "double_round x =
     (let y = x * 2 ^ emin; k = nat (bitlen \<lfloor>y\<rfloor> - int precision)
      in of_int (round_half_even (y / 2 ^ k)) * 2 ^ k / 2 ^ emin)"

definition is_double :: "rat \<Rightarrow> bool" where
  "is_double x = (0 \<le> x \<and> x < 2 ^ 1024 \<and> double_round x = x)"

text \<open>
  \<^verbatim>\<open>Math.floor(Math.random() * triviaQuestions.length)\<close>: the length of an array is an
  integer below \<open>2 ^ 32\<close>, so it is a double as it stands.
\<close>

definition randomIndex :: "rat \<Rightarrow> nat \<Rightarrow> int" where
  "randomIndex random n = \<lfloor>double_round (random * of_nat n)\<rfloor>"

text \<open>
  The values that the properties of \<^verbatim>\<open>userScore\<close> and \<^verbatim>\<open>questionNumber\<close> can have: a
  count, a string, and what the two objects inherit from \<^verbatim>\<open>Object.prototype\<close>, which is a
  built-in function (given by its name) or \<^verbatim>\<open>Object.prototype\<close> itself.
\<close>

datatype jsval =
    JSUndefined
  | JSNaN
  | JSNumber nat
  | JSString string
  | JSFunction string
  | JSObjectPrototype

text \<open>\<^verbatim>\<open>!v\<close>.\<close>

fun falsy :: "jsval \<Rightarrow> bool" where
  "falsy JSUndefined = True"
| "falsy JSNaN = True"
| "falsy (JSNumber n) = (n = 0)"
| "falsy (JSString t) = (t = [])"
| "falsy (JSFunction f) = False"
| "falsy JSObjectPrototype = False"

text \<open>
  \<^verbatim>\<open>v + 1\<close>. On a count it is the addition of doubles, the exact sum rounded: the sum
  \<open>2 ^ 53 + 1\<close> is a tie and rounds back to \<open>2 ^ 53\<close>, so a count that starts at 0 and
  grows by this addition stays there. A string gets the character 1 appended; a function
  and an object are turned into a string first.
\<close>

definition add_one :: "nat \<Rightarrow> nat" where
  "add_one n = nat \<lfloor>double_round (of_nat n + 1)\<rfloor>"

fun plus_one :: "jsval \<Rightarrow> jsval" where
  "plus_one JSUndefined = JSNaN"
| "plus_one JSNaN = JSNaN"
| "plus_one (JSNumber n) = JSNumber (add_one n)"
| "plus_one (JSString t) = JSString (t @ ''1'')"
| "plus_one (JSFunction f) = JSString (''function '' @ f @ ''() { [native code] }'' @ ''1'')"
| "plus_one JSObjectPrototype = JSString (''[object Object]'' @ ''1'')"

text \<open>\<^verbatim>\<open>v || 0\<close>.\<close>

definition or_0 :: "jsval \<Rightarrow> jsval" where
  "or_0 v = (if falsy v then JSNumber 0 else v)"

text \<open>
  An object created by \<^verbatim>\<open>{}\<close> is the map of its own properties; a property it does not
  have is looked up in \<^verbatim>\<open>Object.prototype\<close>. There \<^verbatim>\<open>__proto__\<close> is an accessor: reading it
  gives the prototype of the object, and writing a value that is not an object does
  nothing. Every other property of \<^verbatim>\<open>Object.prototype\<close> is a function that an
  assignment shadows by an own property.
\<close>

type_synonym js_object = "string \<rightharpoonup> jsval"

definition prototype_functions :: "string list" where
  "prototype_functions =
     [''__defineGetter__'', ''__defineSetter__'', ''hasOwnProperty'', ''__lookupGetter__'',
      ''__lookupSetter__'', ''isPrototypeOf'', ''propertyIsEnumerable'', ''toString'',
      ''valueOf'', ''toLocaleString'']"

definition prototype_names :: "string list" where
  "prototype_names = ''__proto__'' # ''constructor'' # prototype_functions"

definition prototype_get :: "string \<Rightarrow> jsval" where
  "prototype_get k =
     (if k = ''__proto__'' then JSObjectPrototype
      else if k = ''constructor'' then JSFunction ''Object''
      else if k \<in> set prototype_functions then JSFunction k
      else JSUndefined)"

text \<open>\<^verbatim>\<open>obj[k]\<close> and \<^verbatim>\<open>obj[k] = v\<close>, for \<^verbatim>\<open>v\<close> a number or a string.\<close>

definition get_property :: "js_object \<Rightarrow> string \<Rightarrow> jsval" where
  "get_property obj k =
     (if k = ''__proto__'' then JSObjectPrototype
      else (case obj k of Some v \<Rightarrow> v | None \<Rightarrow> prototype_get k))"

definition set_property :: "js_object \<Rightarrow> string \<Rightarrow> jsval \<Rightarrow> js_object" where
  "set_property obj k v = (if k = ''__proto__'' then obj else obj(k \<mapsto> v))"

section \<open>The session state and the three handlers\<close>

text \<open>
  The module-level variables of \<^verbatim>\<open>server.js\<close>. \<^verbatim>\<open>userScore\<close> and \<^verbatim>\<open>questionNumber\<close>
  are objects created by \<^verbatim>\<open>{}\<close> and indexed by the user id. \<^const>\<open>None\<close> in
  \<^verbatim>\<open>currentQuestion\<close> and \<^verbatim>\<open>currentAnswer\<close> is \<^verbatim>\<open>null\<close>.
\<close>

record state =
  triviaQuestions :: "QuestionRecord list"
  userScore :: js_object
  questionNumber :: js_object
  currentQuestion :: "string option"
  currentAnswer :: "string option"

definition initial_state :: state where
  "initial_state =
     \<lparr>triviaQuestions = [], userScore = Map.empty, questionNumber = Map.empty,
      currentQuestion = None, currentAnswer = None\<rparr>"

text \<open>\<^verbatim>\<open>!v\<close> on a string or \<^verbatim>\<open>null\<close>: true for \<^verbatim>\<open>null\<close> and for the empty string.\<close>

definition not_string :: "string option \<Rightarrow> bool" where
  "not_string v = (case v of None \<Rightarrow> True | Some t \<Rightarrow> t = [])"

text \<open>
  \<^verbatim>\<open>updateUserScore\<close> and \<^verbatim>\<open>updateQuestionNumber\<close>: \<^verbatim>\<open>if (!m[userId]) m[userId] = 0\<close>,
  then \<^verbatim>\<open>m[userId] += 1\<close> (for the score only \<^verbatim>\<open>if (correct)\<close>).
\<close>

definition updateUserScore :: "string \<Rightarrow> bool \<Rightarrow> js_object \<Rightarrow> js_object" where
  "updateUserScore userId correct us =
     (let us1 = (if falsy (get_property us userId) then set_property us userId (JSNumber 0)
                 else us)
      in if correct then set_property us1 userId (plus_one (get_property us1 userId)) else us1)"

definition updateQuestionNumber :: "string \<Rightarrow> js_object \<Rightarrow> js_object" where
  "updateQuestionNumber userId qn =
     (let qn1 = (if falsy (get_property qn userId) then set_property qn userId (JSNumber 0)
                 else qn)
      in set_property qn1 userId (plus_one (get_property qn1 userId)))"

text \<open>
  What a handler sends: the \<^verbatim>\<open>chat\<close> view with the fields of \<^verbatim>\<open>renderChat\<close> (each
  \<^verbatim>\<open>null\<close> unless overridden), a JSON error with status 500, the object that
  \<^verbatim>\<open>GET /score\<close> passes to \<^verbatim>\<open>res.json\<close> (its \<^verbatim>\<open>score\<close> and its \<^verbatim>\<open>questionsAnswered\<close>), or
  nothing of its own because a \<^verbatim>\<open>TypeError\<close> left the handler uncaught.
\<close>

record chat =
  chat_question :: "string option"
  chat_answer :: "string option"
  chat_userAnswer :: "string option"
  chat_correct :: "bool option"
  chat_error :: "string option"

definition defaults :: chat where
  "defaults =
     \<lparr>chat_question = None, chat_answer = None, chat_userAnswer = None,
      chat_correct = None, chat_error = None\<rparr>"

datatype response =
    RenderChat chat
  | Status500 string
  | ScoreJson jsval jsval
  | UncaughtTypeError

text \<open>
  The outcome of the \<^verbatim>\<open>axios.post\<close> call: the promise is rejected (network error or a
  status outside 2xx), or it resolves and
  \<^verbatim>\<open>response.data?.choices?.[0]?.message?.content || ''\<close> is the given string.
\<close>

datatype axios_result = Rejected | Resolved string

text \<open>
  \<^verbatim>\<open>app.get('/question')\<close>. The second argument is the value of \<^verbatim>\<open>Math.random()\<close>, read
  only in the \<^verbatim>\<open>catch\<close> block. An index outside the array would make the destructuring
  of \<^verbatim>\<open>undefined\<close> throw.
\<close>

definition get_question :: "axios_result \<Rightarrow> rat \<Rightarrow> state \<Rightarrow> response \<times> state" where
  "get_question ax random s =
     (case ax of
        Resolved content \<Rightarrow>
          (case parseQA (trim content) of
             None \<Rightarrow> (Status500 ''Could not parse question/answer from AI response'', s)
           | Some (q, a) \<Rightarrow>
               if q = [] \<or> a = []
               then (Status500 ''Could not parse question/answer from AI response'', s)
               else (RenderChat (defaults\<lparr>chat_question := Some q\<rparr>),
                     s\<lparr>triviaQuestions := storeTriviaQuestion q a (triviaQuestions s),
                       currentQuestion := Some q,
                       currentAnswer := Some a\<rparr>))
      | Rejected \<Rightarrow>
          if length (triviaQuestions s) > 0
          then (let i = randomIndex random (length (triviaQuestions s))
                in if 0 \<le> i \<and> i < int (length (triviaQuestions s))
                   then (RenderChat (defaults\<lparr>chat_question :=
                           Some (question (triviaQuestions s ! nat i))\<rparr>), s)
                   else (UncaughtTypeError, s))
          else (Status500 ''Unable to get trivia question'', s))"

text \<open>
  \<^verbatim>\<open>app.post('/answer')\<close>. The arguments are \<^verbatim>\<open>req.body.answer\<close> and
  \<^verbatim>\<open>req.body.userId\<close>, \<^const>\<open>None\<close> when the body has no such field. Calling
  \<^verbatim>\<open>toLowerCase\<close> on \<^verbatim>\<open>undefined\<close> throws before any counter is touched.
  \<^verbatim>\<open>req.body.userId || 'default'\<close> replaces a missing and an empty user id.
\<close>

definition effective_userId :: "string option \<Rightarrow> string" where
  "effective_userId u =
     (case u of None \<Rightarrow> ''default'' | Some t \<Rightarrow> if t = [] then ''default'' else t)"

definition post_answer :: "string option \<Rightarrow> string option \<Rightarrow> state \<Rightarrow> response \<times> state" where
  "post_answer body_answer body_userId s =
     (let userId = effective_userId body_userId
      in if not_string (currentQuestion s) \<or> not_string (currentAnswer s)
         then (RenderChat (defaults\<lparr>chat_question := Some ''Please get a new question first!'',
                                    chat_error := Some ''No active question found''\<rparr>), s)
         else (case (body_answer, currentAnswer s) of
                 (Some userAnswer, Some expected) \<Rightarrow>
                   (let correct = grade userAnswer expected;
                        us = (if correct then updateUserScore userId True (userScore s)
                              else userScore s);
                        qn = updateQuestionNumber userId (questionNumber s)
                    in (RenderChat (defaults\<lparr>chat_question := currentQuestion s,
                                             chat_answer := currentAnswer s,
                                             chat_userAnswer := Some userAnswer,
                                             chat_correct := Some correct\<rparr>),
                        s\<lparr>userScore := us, questionNumber := qn\<rparr>))
               | _ \<Rightarrow> (UncaughtTypeError, s)))"

text \<open>
  \<^verbatim>\<open>app.get('/score')\<close>: \<^verbatim>\<open>score: userScore[userId] || 0\<close> and
  \<^verbatim>\<open>questionsAnswered: questionNumber[userId] || 0\<close>.
\<close>

definition get_score :: "string option \<Rightarrow> state \<Rightarrow> response \<times> state" where
  "get_score query_userId s =
     (let userId = effective_userId query_userId
      in (ScoreJson (or_0 (get_property (userScore s) userId))
                    (or_0 (get_property (questionNumber s) userId)), s))"

text \<open>A run of the server: requests handled one after the other, from a given state.\<close>

datatype request =
    GetQuestion axios_result rat
  | PostAnswer "string option" "string option"
  | GetScore "string option"

fun handle :: "request \<Rightarrow> state \<Rightarrow> response \<times> state" where
  "handle (GetQuestion ax random) s = get_question ax random s"
| "handle (PostAnswer a u) s = post_answer a u s"
| "handle (GetScore u) s = get_score u s"

fun run :: "request list \<Rightarrow> state \<Rightarrow> state" where
  "run [] s = s"
| "run (r # rs) s = run rs (snd (handle r s))"

text \<open>
  The two ledgers agree on a user id when both counts are numbers and the score is at
  most the number of questions answered.
\<close>

definition score_le_progress :: "state \<Rightarrow> string \<Rightarrow> bool" where
  "score_le_progress s u =
     (case (or_0 (get_property (userScore s) u), or_0 (get_property (questionNumber s) u)) of
        (JSNumber a, JSNumber b) \<Rightarrow> a \<le> b
      | _ \<Rightarrow> False)"

text \<open>The same, with the number of questions answered at most \<open>2 ^ 53\<close>.\<close>

definition counts_in_range :: "state \<Rightarrow> string \<Rightarrow> bool" where
  "counts_in_range s u =
     (case (or_0 (get_property (userScore s) u), or_0 (get_property (questionNumber s) u)) of
        (JSNumber a, JSNumber b) \<Rightarrow> a \<le> b \<and> b \<le> 2 ^ precision
      | _ \<Rightarrow> False)"

text \<open>
  States for examples: two stored questions of which the first is the current one; the
  same with a player whose count of questions has reached \<open>2 ^ 53\<close>; the same with ten
  stored questions.
\<close>

definition two_questions :: state where
  "two_questions =
     \<lparr>triviaQuestions = [\<lparr>question = ''Capital of France?'', answer = ''Paris''\<rparr>,
                         \<lparr>question = ''Largest planet?'', answer = ''Jupiter''\<rparr>],
      userScore = Map.empty, questionNumber = Map.empty,
      currentQuestion = Some ''Capital of France?'', currentAnswer = Some ''Paris''\<rparr>"

definition long_player :: state where
  "long_player = two_questions\<lparr>questionNumber := [''ann'' \<mapsto> JSNumber (2 ^ 53)]\<rparr>"

definition ten_questions :: state where
  "ten_questions = two_questions\<lparr>triviaQuestions := map mkRecord (map numbered [1..<11])\<rparr>"

section \<open>Grading\<close>

lemma isWhiteSpace_toLowerCase_char: "isWhiteSpace (toLowerCase_char c) = isWhiteSpace c"
  unfolding isWhiteSpace_def toLowerCase_char_def Let_def by auto

lemma dropWhile_ws_toLowerCase:
  "dropWhile isWhiteSpace (map toLowerCase_char s) = map toLowerCase_char (dropWhile isWhiteSpace s)"
  by (induction s) (simp_all add: isWhiteSpace_toLowerCase_char)

lemma toLowerCase_trim: "trim (toLowerCase s) = toLowerCase (trim s)"
proof -
  have "dropWhile isWhiteSpace (rev (map toLowerCase_char (dropWhile isWhiteSpace s)))
        = map toLowerCase_char (dropWhile isWhiteSpace (rev (dropWhile isWhiteSpace s)))"
    using dropWhile_ws_toLowerCase [of "rev (dropWhile isWhiteSpace s)"]
    by (simp add: rev_map)
  then show ?thesis
    by (simp add: trim_def toLowerCase_def dropWhile_ws_toLowerCase rev_map)
qed

text \<open>
  Claim C2. Grading is true exactly when the two strings, lower-cased and trimmed of
  surrounding whitespace, are equal; the order of the two normalisation steps does not
  matter. In particular \<open>'' Paris ''\<close> matches \<open>''paris''\<close>, and \<open>''Paris''\<close> does not match
  \<open>''France''\<close>.
\<close>

theorem grade_normalized:
  "(grade submitted expected \<longleftrightarrow> trim (toLowerCase submitted) = trim (toLowerCase expected))
   \<and> (grade submitted expected \<longleftrightarrow> toLowerCase (trim submitted) = toLowerCase (trim expected))
   \<and> grade '' Paris '' ''paris''
   \<and> \<not> grade ''Paris'' ''France''"
proof -
  have a: "grade '' Paris '' ''paris''" by code_simp
  have b: "\<not> grade ''Paris'' ''France''" by code_simp
  show ?thesis using a b by (simp add: grade_def toLowerCase_trim)
qed

section \<open>The store: duplicates and the bound\<close>

lemma storeTriviaQuestion_present:
  "list_ex (\<lambda>r. question r = q) tq \<Longrightarrow> storeTriviaQuestion q a tq = tq"
  by (simp add: storeTriviaQuestion_def)

lemma storeTriviaQuestion_absent:
  "\<not> list_ex (\<lambda>r. question r = q) tq \<Longrightarrow>
   storeTriviaQuestion q a tq =
     (if length tq < maxTriviaQuestions then tq @ [\<lparr>question = q, answer = a\<rparr>]
      else tl tq @ [\<lparr>question = q, answer = a\<rparr>])"
  by (cases tq) (auto simp add: storeTriviaQuestion_def Let_def maxTriviaQuestions_def)

lemma storeTriviaQuestion_contains:
  "list_ex (\<lambda>r. question r = q) (storeTriviaQuestion q a tq)"
  by (cases "list_ex (\<lambda>r. question r = q) tq")
     (simp_all add: storeTriviaQuestion_present storeTriviaQuestion_absent)

lemma find_absent_append:
  "\<not> list_ex P xs \<Longrightarrow> find P (xs @ ys) = find P ys"
  by (induction xs) auto

lemma list_ex_tl: "\<not> list_ex P xs \<Longrightarrow> \<not> list_ex P (tl xs)"
  by (cases xs) auto

text \<open>
  Claim C7. Storing a question text that the store already holds changes nothing, whatever
  the new answer is. So storing the same question twice is the same as storing it once,
  and the record found for it keeps the answer of the first call.
\<close>

theorem storeTriviaQuestion_duplicate:
  "(list_ex (\<lambda>r. question r = q) tq \<longrightarrow> storeTriviaQuestion q a2 tq = tq)
   \<and> storeTriviaQuestion q a2 (storeTriviaQuestion q a1 tq) = storeTriviaQuestion q a1 tq
   \<and> (\<not> list_ex (\<lambda>r. question r = q) tq \<longrightarrow>
        find (\<lambda>r. question r = q) (storeTriviaQuestion q a2 (storeTriviaQuestion q a1 tq))
          = Some \<lparr>question = q, answer = a1\<rparr>)"
proof (intro conjI impI)
  assume "list_ex (\<lambda>r. question r = q) tq"
  then show "storeTriviaQuestion q a2 tq = tq" by (rule storeTriviaQuestion_present)
next
  show twice: "storeTriviaQuestion q a2 (storeTriviaQuestion q a1 tq) = storeTriviaQuestion q a1 tq"
    by (rule storeTriviaQuestion_present) (rule storeTriviaQuestion_contains)
  assume absent: "\<not> list_ex (\<lambda>r. question r = q) tq"
  have "find (\<lambda>r. question r = q) (storeTriviaQuestion q a1 tq) = Some \<lparr>question = q, answer = a1\<rparr>"
    using absent list_ex_tl [OF absent]
    by (simp add: storeTriviaQuestion_absent find_absent_append)
  then show "find (\<lambda>r. question r = q) (storeTriviaQuestion q a2 (storeTriviaQuestion q a1 tq))
          = Some \<lparr>question = q, answer = a1\<rparr>"
    by (simp only: twice)
qed

theorem storeTriviaQuestion_duplicate_witness:
  "list_ex (\<lambda>r. question r = ''Q1'')
     [\<lparr>question = ''Q1'', answer = ''A1''\<rparr>, \<lparr>question = ''Q2'', answer = ''A2''\<rparr>]
   \<and> storeTriviaQuestion ''Q1'' ''other''
       [\<lparr>question = ''Q1'', answer = ''A1''\<rparr>, \<lparr>question = ''Q2'', answer = ''A2''\<rparr>]
     = [\<lparr>question = ''Q1'', answer = ''A1''\<rparr>, \<lparr>question = ''Q2'', answer = ''A2''\<rparr>]
   \<and> \<not> list_ex (\<lambda>r. question r = ''Q3'') [\<lparr>question = ''Q1'', answer = ''A1''\<rparr>]
   \<and> find (\<lambda>r. question r = ''Q3'')
        (storeTriviaQuestion ''Q3'' ''other'' (storeTriviaQuestion ''Q3'' ''A3''
          [\<lparr>question = ''Q1'', answer = ''A1''\<rparr>]))
      = Some \<lparr>question = ''Q3'', answer = ''A3''\<rparr>"
proof -
  have p1: "list_ex (\<lambda>r. question r = ''Q1'')
     [\<lparr>question = ''Q1'', answer = ''A1''\<rparr>, \<lparr>question = ''Q2'', answer = ''A2''\<rparr>]"
    by simp
  have p2: "\<not> list_ex (\<lambda>r. question r = ''Q3'') [\<lparr>question = ''Q1'', answer = ''A1''\<rparr>]"
    by simp
  have c1: "storeTriviaQuestion ''Q1'' ''other''
       [\<lparr>question = ''Q1'', answer = ''A1''\<rparr>, \<lparr>question = ''Q2'', answer = ''A2''\<rparr>]
     = [\<lparr>question = ''Q1'', answer = ''A1''\<rparr>, \<lparr>question = ''Q2'', answer = ''A2''\<rparr>]"
    using storeTriviaQuestion_duplicate [THEN conjunct1, THEN mp, OF p1] .
  have c2: "find (\<lambda>r. question r = ''Q3'')
        (storeTriviaQuestion ''Q3'' ''other'' (storeTriviaQuestion ''Q3'' ''A3''
          [\<lparr>question = ''Q1'', answer = ''A1''\<rparr>]))
      = Some \<lparr>question = ''Q3'', answer = ''A3''\<rparr>"
    using storeTriviaQuestion_duplicate [THEN conjunct2, THEN conjunct2, THEN mp, OF p2] .
  show ?thesis using p1 p2 c1 c2 by blast
qed

lemma length_storeTriviaQuestion:
  "length tq \<le> maxTriviaQuestions \<Longrightarrow> length (storeTriviaQuestion q a tq) \<le> maxTriviaQuestions"
  by (cases "list_ex (\<lambda>r. question r = q) tq")
     (auto simp add: storeTriviaQuestion_present storeTriviaQuestion_absent maxTriviaQuestions_def)

lemma length_storeAll:
  "length tq \<le> maxTriviaQuestions \<Longrightarrow> length (storeAll qas tq) \<le> maxTriviaQuestions"
proof (induction qas arbitrary: tq)
  case Nil
  then show ?case by simp
next
  case (Cons p qas)
  obtain q a where p: "p = (q, a)" by (cases p)
  show ?case unfolding p by (simp add: Cons.IH length_storeTriviaQuestion Cons.prems)
qed

lemma storeAll_append: "storeAll (xs @ ys) tq = storeAll ys (storeAll xs tq)"
  by (induction xs arbitrary: tq) auto

lemma question_mkRecord: "question (mkRecord p) = fst p"
  by (simp add: mkRecord_def)

lemma storeAll_window:
  "distinct (map fst qas) \<Longrightarrow>
   storeAll qas [] = drop (length qas - maxTriviaQuestions) (map mkRecord qas)"
proof (induction qas rule: rev_induct)
  case Nil
  then show ?case by simp
next
  case (snoc p qas)
  obtain q a where p: "p = (q, a)" by (cases p)
  let ?old = "drop (length qas - maxTriviaQuestions) (map mkRecord qas)"
  have ih: "storeAll qas [] = ?old" using snoc by simp
  have "q \<notin> fst ` set qas" using snoc.prems by (simp add: p)
  then have absent: "\<not> list_ex (\<lambda>r. question r = q) ?old"
    by (force simp add: list_ex_iff question_mkRecord image_iff dest: in_set_dropD)
  have new: "\<lparr>question = q, answer = a\<rparr> = mkRecord p" by (simp add: p mkRecord_def)
  have "storeAll (qas @ [p]) [] = storeTriviaQuestion q a ?old"
    by (simp add: storeAll_append ih p)
  also have "\<dots> = drop (length (qas @ [p]) - maxTriviaQuestions) (map mkRecord (qas @ [p]))"
  proof (cases "length qas < maxTriviaQuestions")
    case True
    then show ?thesis
      unfolding storeTriviaQuestion_absent [OF absent, of a] new by simp
  next
    case False
    then have "Suc (length qas) - maxTriviaQuestions = Suc (length qas - maxTriviaQuestions)"
      by simp
    with False show ?thesis
      unfolding storeTriviaQuestion_absent [OF absent, of a] new
      by (simp add: drop_Suc tl_drop maxTriviaQuestions_def)
  qed
  finally show ?case .
qed

text \<open>
  Claim C6. The store never holds more than \<^const>\<open>maxTriviaQuestions\<close> records: a
  sequence of calls of \<^verbatim>\<open>storeTriviaQuestion\<close> keeps a store within the bound. Storing
  \<^const>\<open>maxTriviaQuestions\<close> + 1 pairwise different questions into the empty store leaves
  exactly \<^const>\<open>maxTriviaQuestions\<close> records: all but the first, in the order of
  insertion.
\<close>

theorem store_bounded_fifo:
  "(length tq \<le> maxTriviaQuestions \<longrightarrow> length (storeAll qas tq) \<le> maxTriviaQuestions)
   \<and> (distinct (map fst qas) \<and> length qas = maxTriviaQuestions + 1 \<longrightarrow>
        storeAll qas [] = tl (map mkRecord qas)
        \<and> length (storeAll qas []) = maxTriviaQuestions
        \<and> \<not> list_ex (\<lambda>r. question r = fst (hd qas)) (storeAll qas []))"
proof (intro conjI impI)
  assume "length tq \<le> maxTriviaQuestions"
  then show "length (storeAll qas tq) \<le> maxTriviaQuestions" by (rule length_storeAll)
next
  assume h: "distinct (map fst qas) \<and> length qas = maxTriviaQuestions + 1"
  then have w: "storeAll qas [] = drop 1 (map mkRecord qas)"
    using storeAll_window [of qas] by simp
  then show eq: "storeAll qas [] = tl (map mkRecord qas)" by (simp add: drop_Suc)
  show "length (storeAll qas []) = maxTriviaQuestions" using h by (simp add: w)
  obtain p rest where qas: "qas = p # rest" using h by (cases qas) auto
  have "fst p \<notin> fst ` set rest" using h by (simp add: qas)
  then have "\<not> list_ex (\<lambda>r. question r = fst (hd qas)) (tl (map mkRecord qas))"
    by (force simp add: qas list_ex_iff question_mkRecord image_iff)
  then show "\<not> list_ex (\<lambda>r. question r = fst (hd qas)) (storeAll qas [])"
    unfolding eq .
qed

theorem store_bounded_fifo_witness:
  "length ([] :: QuestionRecord list) \<le> maxTriviaQuestions
   \<and> length (storeAll (map numbered [0..<101]) []) \<le> maxTriviaQuestions
   \<and> distinct (map fst (map numbered [0..<101]))
   \<and> length (map numbered [0..<101]) = maxTriviaQuestions + 1
   \<and> storeAll (map numbered [0..<101]) [] = map mkRecord (map numbered [1..<101])
   \<and> length (storeAll (map numbered [0..<101]) []) = maxTriviaQuestions"
proof -
  have inj: "inj_on (fst \<circ> numbered) A" for A
  proof (rule inj_onI)
    fix x y assume "(fst \<circ> numbered) x = (fst \<circ> numbered) y"
    then have "length (replicate x CHR ''?'') = length (replicate y CHR ''?'')"
      by (simp add: numbered_def)
    then show "x = y" by simp
  qed
  have d: "distinct (map fst (map numbered [0..<101]))"
    by (simp add: distinct_map inj del: upt_Suc)
  have l: "length (map numbered [0..<101]) = maxTriviaQuestions + 1"
    by (simp add: maxTriviaQuestions_def)
  have b: "length ([] :: QuestionRecord list) \<le> maxTriviaQuestions" by simp
  note t = store_bounded_fifo [of "[]" "map numbered [0..<101]"]
  have c1: "length (storeAll (map numbered [0..<101]) []) \<le> maxTriviaQuestions"
    using t b by blast
  have c2: "storeAll (map numbered [0..<101]) [] = tl (map mkRecord (map numbered [0..<101]))"
    and c3: "length (storeAll (map numbered [0..<101]) []) = maxTriviaQuestions"
    using t d l by blast+
  have "tl (map mkRecord (map numbered [0..<101])) = map mkRecord (map numbered [1..<101])"
    by (simp add: upt_conv_Cons [of 0 101] del: upt_Suc)
  with b c1 c2 c3 d l show ?thesis by simp
qed

section \<open>Rounding and the random index\<close>

lemma round_half_even_of_int: "round_half_even (of_int t) = t"
  by (simp add: round_half_even_def)

lemma round_half_even_le: "of_int (round_half_even z) \<le> z + 1 / 2"
proof -
  have a: "of_int \<lfloor>z\<rfloor> \<le> z" by simp
  consider "z - of_int \<lfloor>z\<rfloor> < 1 / 2" | "1 / 2 < z - of_int \<lfloor>z\<rfloor>"
    | "z - of_int \<lfloor>z\<rfloor> = 1 / 2"
    by linarith
  then show ?thesis
  proof cases
    case 1
    then have e: "round_half_even z = \<lfloor>z\<rfloor>" by (simp add: round_half_even_def)
    show ?thesis unfolding e using a by linarith
  next
    case 2
    then have e: "round_half_even z = \<lfloor>z\<rfloor> + 1" by (simp add: round_half_even_def)
    show ?thesis unfolding e of_int_add of_int_1 using 2 by linarith
  next
    case 3
    then have "round_half_even z = \<lfloor>z\<rfloor> \<or> round_half_even z = \<lfloor>z\<rfloor> + 1"
      by (simp add: round_half_even_def Let_def)
    then show ?thesis
    proof
      assume e: "round_half_even z = \<lfloor>z\<rfloor>"
      show ?thesis unfolding e using a by linarith
    next
      assume e: "round_half_even z = \<lfloor>z\<rfloor> + 1"
      show ?thesis unfolding e of_int_add of_int_1 using 3 by linarith
    qed
  qed
qed

lemma round_half_even_nonneg: "0 \<le> z \<Longrightarrow> 0 \<le> round_half_even z"
  by (auto simp add: round_half_even_def Let_def)

lemma double_round_scaled:
  "double_round (of_int T / 2 ^ emin) =
     of_int (round_half_even (of_int T / 2 ^ nat (bitlen T - int precision)))
       * 2 ^ nat (bitlen T - int precision) / 2 ^ emin"
proof -
  have "(of_int T / 2 ^ emin) * 2 ^ emin = (of_int T :: rat)" by simp
  then show ?thesis
    unfolding double_round_def Let_def by (simp only: floor_of_int)
qed


lemma precision_le_emin: "precision \<le> emin"
  by (simp add: precision_def emin_def)

text \<open>A double is a multiple of the smallest one, with less than 53 significant bits.\<close>

lemma is_double_scaled:
  assumes "is_double r"
  shows "\<exists>q k. r * 2 ^ emin = of_int (q * 2 ^ k) \<and> 0 \<le> q \<and> q < 2 ^ precision
           \<and> (r < 1 \<longrightarrow> k \<le> emin - precision)"
proof -
  define Y where "Y = \<lfloor>r * 2 ^ emin\<rfloor>"
  define k where "k = nat (bitlen Y - int precision)"
  define q where "q = round_half_even (r * 2 ^ emin / 2 ^ k)"
  have r0: "0 \<le> r" and fixed: "double_round r = r" using assms by (simp_all add: is_double_def)
  have "r = of_int q * 2 ^ k / 2 ^ emin"
    using fixed unfolding double_round_def Let_def q_def k_def Y_def by simp
  then have scaled: "r * 2 ^ emin = of_int (q * 2 ^ k)" by simp
  then have Y: "Y = q * 2 ^ k" unfolding Y_def by (simp only: floor_of_int)
  have "0 \<le> r * 2 ^ emin / 2 ^ k" using r0 by simp
  then have q0: "0 \<le> q" unfolding q_def by (rule round_half_even_nonneg)
  have qp: "q < 2 ^ precision"
  proof (cases "0 < Y")
    case False
    then have "q * 2 ^ k \<le> 0" using Y by simp
    then have "q \<le> 0" by (simp add: mult_le_0_iff)
    then show ?thesis using q0 by simp
  next
    case True
    then have up: "Y < 2 ^ nat (bitlen Y)" using bitlen_bounds by blast
    have "nat (bitlen Y) \<le> k + precision" unfolding k_def by simp
    then have "(2::int) ^ nat (bitlen Y) \<le> 2 ^ (k + precision)"
      by (rule power_increasing) simp
    with up have "Y < 2 ^ (k + precision)" by (rule less_le_trans)
    then have "q * 2 ^ k < 2 ^ precision * 2 ^ k"
      unfolding Y by (simp only: power_add mult.commute)
    then show ?thesis by simp
  qed
  have kb: "k \<le> emin - precision" if "r < 1"
  proof (cases "k = 0")
    case True
    then show ?thesis by simp
  next
    case False
    then have b: "int precision < bitlen Y" unfolding k_def by simp
    then have pos: "0 < Y" using bitlen_eq_zero_iff [of Y] bitlen_nonneg [of Y]
      by (cases "0 < Y") auto
    then have lo: "2 ^ nat (bitlen Y - 1) \<le> Y" using bitlen_bounds by blast
    have "r * 2 ^ emin < 1 * 2 ^ emin" using that by (simp only: mult_strict_right_mono zero_less_power zero_less_numeral)
    then have "of_int Y < (2::rat) ^ emin" unfolding Y scaled [symmetric] by simp
    then have "Y < 2 ^ emin" by (metis of_int_less_iff of_int_numeral of_int_power)
    with lo have "(2::int) ^ nat (bitlen Y - 1) < 2 ^ emin" by (rule le_less_trans)
    then have "nat (bitlen Y - 1) < emin" by simp
    then show ?thesis using b unfolding k_def by simp
  qed
  from scaled q0 qp kb show ?thesis by blast
qed


lemma is_double_below_one:
  assumes "is_double r" and "r < 1"
  shows "r * 2 ^ emin \<le> 2 ^ emin - 2 ^ (emin - precision)"
proof -
  from is_double_scaled [OF assms(1)] obtain q k
    where scaled: "r * 2 ^ emin = of_int (q * 2 ^ k)"
      and q0: "0 \<le> q" and qp: "q < 2 ^ precision" and kb: "r < 1 \<longrightarrow> k \<le> emin - precision"
    by blast
  have k: "k \<le> emin - precision" using kb assms(2) by blast
  have "q \<le> 2 ^ precision - 1" using qp by simp
  then have "q * 2 ^ k \<le> (2 ^ precision - 1) * 2 ^ k"
    by (rule mult_right_mono) simp
  also have "\<dots> \<le> (2 ^ precision - 1) * 2 ^ (emin - precision)"
    by (rule mult_left_mono) (simp_all add: k)
  also have "\<dots> = 2 ^ emin - 2 ^ (emin - precision)"
    using precision_le_emin by (simp add: left_diff_distrib power_add [symmetric])
  finally have "q * 2 ^ k \<le> (2::int) ^ emin - 2 ^ (emin - precision)" .
  then have "(of_int (q * 2 ^ k) :: rat) \<le> of_int (2 ^ emin - 2 ^ (emin - precision))"
    by (simp only: of_int_le_iff)
  then show ?thesis unfolding scaled by simp
qed

lemma randomIndex_in_range:
  assumes "is_double random" and "random < 1" and "0 < n"
  shows "0 \<le> randomIndex random n \<and> randomIndex random n < int n"
proof -
  from is_double_scaled [OF assms(1)] obtain q k
    where scaled: "random * 2 ^ emin = of_int (q * 2 ^ k)" and q0: "0 \<le> q"
    by blast
  define T where "T = q * 2 ^ k * int n"
  define j where "j = nat (bitlen T - int precision)"
  define Q where "Q = round_half_even (of_int T / 2 ^ j)"
  have T0: "0 \<le> T" unfolding T_def using q0 by simp
  have "random * of_nat n * 2 ^ emin = of_int T"
    unfolding T_def using scaled by (simp add: mult.commute mult.left_commute)
  then have x: "random * of_nat n = of_int T / 2 ^ emin" by (simp add: field_simps)
  have dr: "double_round (random * of_nat n) = of_int Q * 2 ^ j / 2 ^ emin"
    unfolding x Q_def j_def by (rule double_round_scaled)
  have "0 \<le> (of_int T :: rat) / 2 ^ j" using T0 by simp
  then have Q0: "0 \<le> Q" unfolding Q_def by (rule round_half_even_nonneg)
  then have lower: "0 \<le> randomIndex random n"
    unfolding randomIndex_def dr by simp
  have below: "of_int T \<le> (2 ^ emin - 2 ^ (emin - precision)) * (of_nat n :: rat)"
  proof -
    have "random * 2 ^ emin * of_nat n \<le> (2 ^ emin - 2 ^ (emin - precision)) * of_nat n"
      by (rule mult_right_mono [OF is_double_below_one [OF assms(1,2)]]) simp
    then show ?thesis unfolding scaled T_def by simp
  qed
  have "of_int Q * 2 ^ j < (of_nat n :: rat) * 2 ^ emin"
  proof (cases "j = 0")
    case True
    then have "Q = T" unfolding Q_def by (simp add: round_half_even_of_int)
    moreover have "(2 ^ emin - 2 ^ (emin - precision)) * (of_nat n :: rat) < 2 ^ emin * of_nat n"
      using assms(3) by simp
    ultimately show ?thesis using below True by (simp add: mult.commute)
  next
    case False
    then have b: "int precision < bitlen T" unfolding j_def by simp
    then have pos: "0 < T" using bitlen_eq_zero_iff [of T] bitlen_nonneg [of T]
      by (cases "0 < T") auto
    then have lo: "2 ^ nat (bitlen T - 1) \<le> T" using bitlen_bounds by blast
    have e: "nat (bitlen T - 1) = j - 1 + precision" using b unfolding j_def by simp
    have "(2::int) ^ (j - 1 + precision) \<le> T" using lo unfolding e .
    then have "of_int ((2::int) ^ (j - 1 + precision)) \<le> (of_int T :: rat)"
      by (simp only: of_int_le_iff)
    then have "(2::rat) ^ (j - 1 + precision) \<le> of_int T" by simp
    then have "(2::rat) ^ (j - 1) * 2 ^ precision \<le> of_int T" by (simp only: power_add)
    also have "\<dots> \<le> (2 ^ emin - 2 ^ (emin - precision)) * (of_nat n :: rat)" by (rule below)
    also have "\<dots> < 2 ^ emin * of_nat n" using assms(3) by simp
    also have "\<dots> = 2 ^ (emin - precision) * of_nat n * 2 ^ precision"
      using precision_le_emin by (simp add: power_add [symmetric])
    finally have half: "(2::rat) ^ (j - 1) < 2 ^ (emin - precision) * of_nat n" by simp
    have "(2::rat) ^ j = 2 * 2 ^ (j - 1)" using False by (cases j) simp_all
    then have hj: "(1 / 2) * (2::rat) ^ j = 2 ^ (j - 1)" by simp
    have "of_int Q \<le> of_int T / 2 ^ j + (1 / 2 :: rat)"
      unfolding Q_def by (rule round_half_even_le)
    then have "of_int Q * 2 ^ j \<le> (of_int T / 2 ^ j + 1 / 2) * (2::rat) ^ j"
      by (rule mult_right_mono) simp
    also have "\<dots> = of_int T + 2 ^ (j - 1)"
    proof -
      have "(of_int T :: rat) / 2 ^ j * 2 ^ j = of_int T" by simp
      then show ?thesis by (simp only: distrib_right hj)
    qed
    also have "\<dots> < (2 ^ emin - 2 ^ (emin - precision)) * of_nat n + 2 ^ (emin - precision) * of_nat n"
      using below half by (rule add_le_less_mono)
    also have "\<dots> = of_nat n * 2 ^ emin" by (simp add: algebra_simps)
    finally show ?thesis .
  qed
  then have "of_int Q * 2 ^ j / 2 ^ emin < (of_nat n :: rat)"
    by (simp add: divide_less_eq)
  then have "randomIndex random n < int n"
    unfolding randomIndex_def dr by (simp add: floor_less_iff)
  with lower show ?thesis by simp
qed

text \<open>Rounding a fraction with a small power of two below: only the numerator counts.\<close>

lemma double_round_dyadic:
  assumes "0 < a" and "s \<le> emin"
  shows "double_round (of_int a / 2 ^ s) =
           of_int (round_half_even (of_int a / 2 ^ nat (bitlen a - int precision)))
             * 2 ^ nat (bitlen a - int precision) / 2 ^ s"
proof -
  define d where "d = emin - s"
  define j where "j = nat (bitlen a - int precision)"
  define k where "k = nat (bitlen (a * 2 ^ d) - int precision)"
  have e: "emin = s + d" using assms(2) unfolding d_def by simp
  have x: "(of_int a :: rat) / 2 ^ s = of_int (a * 2 ^ d) / 2 ^ emin"
    unfolding e by (simp add: power_add)
  have bl: "bitlen (a * 2 ^ d) = bitlen a + int d" using assms(1) by (rule bitlen_pow2)
  have dr: "double_round (of_int a / 2 ^ s) =
      of_int (round_half_even (of_int (a * 2 ^ d) / 2 ^ k)) * 2 ^ k / 2 ^ emin"
    unfolding x k_def by (rule double_round_scaled)
  show ?thesis
  proof (cases "int precision \<le> bitlen a")
    case True
    then have k: "k = j + d" unfolding k_def j_def bl by simp
    have "(of_int (a * 2 ^ d) :: rat) / 2 ^ k = of_int a / 2 ^ j"
      unfolding k by (simp add: power_add)
    then show ?thesis
      unfolding dr j_def [symmetric] unfolding k e by (simp add: power_add)
  next
    case False
    then have j0: "j = 0" unfolding j_def by simp
    have kd: "k \<le> d" using False unfolding k_def bl by simp
    define m where "m = d - k"
    have d: "d = m + k" using kd unfolding m_def by simp
    have "(of_int (a * 2 ^ d) :: rat) / 2 ^ k = of_int (a * 2 ^ m)"
      unfolding d by (simp add: power_add)
    then have "round_half_even (of_int (a * 2 ^ d) / 2 ^ k) = a * 2 ^ m"
      by (simp only: round_half_even_of_int)
    then show ?thesis
      unfolding dr j_def [symmetric] j0 unfolding e d
      by (simp add: power_add round_half_even_of_int)
  qed
qed

lemma is_double_dyadic:
  assumes "0 < a" and "a < 2 ^ precision" and "s \<le> emin" and "a < 2 ^ s"
  shows "is_double (of_int a / 2 ^ s)" and "(of_int a :: rat) / 2 ^ s < 1"
proof -
  have "bitlen a \<le> int precision"
    using assms(1,2) by (simp add: bitlen_le_iff_power)
  then have "nat (bitlen a - int precision) = 0" by simp
  then have fixed: "double_round (of_int a / 2 ^ s) = of_int a / 2 ^ s"
    unfolding double_round_dyadic [OF assms(1,3)] by (simp add: round_half_even_of_int)
  have "(of_int a :: rat) < of_int (2 ^ s)" using assms(4) by (simp only: of_int_less_iff)
  then show one: "(of_int a :: rat) / 2 ^ s < 1" by simp
  then have "(of_int a :: rat) / 2 ^ s < 2 ^ 1024"
    by (rule less_le_trans) simp
  then show "is_double (of_int a / 2 ^ s)"
    unfolding is_double_def using fixed assms(1) by simp
qed

text \<open>
  The double nearest to 0.7 and ten records: the exact product is just below 7, the
  product of doubles is 7.
\<close>

lemma randomIndex_example: "randomIndex (3152519739159347 / 2 ^ 52) 10 = 7"
proof -
  have x: "(3152519739159347 / 2 ^ 52 :: rat) * of_nat 10 = of_int 31525197391593470 / 2 ^ 52"
    by simp
  have b: "nat (bitlen 31525197391593470 - int precision) = 2" by code_simp
  have r: "round_half_even (of_int 31525197391593470 / 2 ^ 2) = 7881299347898368" by code_simp
  have "double_round (of_int 31525197391593470 / 2 ^ 52) =
      of_int (round_half_even (of_int 31525197391593470 /
          2 ^ nat (bitlen 31525197391593470 - int precision)))
        * 2 ^ nat (bitlen 31525197391593470 - int precision) / 2 ^ 52"
    by (rule double_round_dyadic) (simp_all add: emin_def)
  then have "double_round (of_int 31525197391593470 / 2 ^ 52) =
      of_int 7881299347898368 * 2 ^ 2 / 2 ^ 52"
    unfolding b r .
  also have "\<dots> = 7" by simp
  finally show ?thesis unfolding randomIndex_def x by simp
qed

lemma exact_floor_example: "\<lfloor>(3152519739159347 / 2 ^ 52 :: rat) * of_nat 10\<rfloor> = 6"
  by code_simp

text \<open>Adding one to a count: exact below \<open>2 ^ 53\<close>, without effect at \<open>2 ^ 53\<close>.\<close>

lemma add_one_below:
  assumes "n < 2 ^ precision"
  shows "add_one n = n + 1"
proof -
  define a where "a = int n + 1"
  have a0: "0 < a" unfolding a_def by simp
  have x: "(of_nat n + 1 :: rat) = of_int a / 2 ^ 0" unfolding a_def by simp
  have dr: "double_round (of_int a / 2 ^ 0) =
      of_int (round_half_even (of_int a / 2 ^ nat (bitlen a - int precision)))
        * 2 ^ nat (bitlen a - int precision) / 2 ^ 0"
    using a0 by (rule double_round_dyadic) simp
  have "double_round (of_int a / 2 ^ 0) = of_int a"
  proof (cases "a < 2 ^ precision")
    case True
    then have "bitlen a \<le> int precision" by (simp add: bitlen_le_iff_power)
    then have "nat (bitlen a - int precision) = 0" by simp
    then show ?thesis unfolding dr by (simp add: round_half_even_of_int)
  next
    case False
    have lt: "int n < 2 ^ precision"
      using assms by (metis of_nat_less_iff of_nat_numeral of_nat_power)
    have "a = 2 ^ precision" using False lt unfolding a_def by linarith
    then have a: "a = 1 * 2 ^ precision" by simp
    have "bitlen a = 1 + int precision"
      unfolding a by (subst bitlen_pow2) (simp_all add: bitlen_alt_def)
    then have j: "nat (bitlen a - int precision) = 1" by simp
    have p: "precision = Suc (precision - 1)" by (simp add: precision_def)
    have "(of_int a :: rat) / 2 ^ 1 = of_int (2 ^ (precision - 1))"
      unfolding a by (subst p) simp
    then have "round_half_even (of_int a / 2 ^ 1) = 2 ^ (precision - 1)"
      by (simp only: round_half_even_of_int)
    then have "double_round (of_int a / 2 ^ 0) = of_int (2 ^ (precision - 1)) * 2 ^ 1 / 2 ^ 0"
      unfolding dr j by simp
    also have "\<dots> = of_int a" unfolding a by (subst (2) p) simp
    finally show ?thesis .
  qed
  then have "add_one n = nat \<lfloor>(of_int a :: rat)\<rfloor>" unfolding add_one_def x by simp
  then show ?thesis unfolding a_def by simp
qed

lemma add_one_saturated: "add_one (2 ^ precision) = 2 ^ precision"
proof -
  have x: "(of_nat (2 ^ 53) + 1 :: rat) = of_int 9007199254740993 / 2 ^ 0" by simp
  have b: "nat (bitlen 9007199254740993 - int precision) = 1" by code_simp
  have r: "round_half_even (of_int 9007199254740993 / 2 ^ 1) = 4503599627370496" by code_simp
  have "double_round (of_int 9007199254740993 / 2 ^ 0) =
      of_int (round_half_even (of_int 9007199254740993 /
          2 ^ nat (bitlen 9007199254740993 - int precision)))
        * 2 ^ nat (bitlen 9007199254740993 - int precision) / 2 ^ 0"
    by (rule double_round_dyadic) simp_all
  then have "double_round (of_int 9007199254740993 / 2 ^ 0) = of_int 4503599627370496 * 2 ^ 1 / 2 ^ 0"
    unfolding b r .
  also have "\<dots> = 9007199254740992" by simp
  finally have "add_one (2 ^ 53) = nat \<lfloor>9007199254740992 :: rat\<rfloor>"
    unfolding add_one_def x by simp
  then show ?thesis by (simp add: precision_def)
qed

section \<open>Answering\<close>

lemma get_set_property:
  "get_property (set_property obj k v) u =
     (if u = k \<and> k \<noteq> ''__proto__'' then v else get_property obj u)"
  by (simp add: get_property_def set_property_def)

lemma get_updateQuestionNumber:
  "get_property (updateQuestionNumber k qn) u =
     (if u = k \<and> k \<noteq> ''__proto__'' then plus_one (or_0 (get_property qn k))
      else get_property qn u)"
proof (cases "falsy (get_property qn k)")
  case True
  then show ?thesis
    by (simp add: updateQuestionNumber_def Let_def get_set_property or_0_def)
next
  case False
  then show ?thesis
    by (simp add: updateQuestionNumber_def Let_def get_set_property or_0_def)
qed

lemma get_updateUserScore:
  "get_property (updateUserScore k True us) u =
     (if u = k \<and> k \<noteq> ''__proto__'' then plus_one (or_0 (get_property us k))
      else get_property us u)"
proof (cases "falsy (get_property us k)")
  case True
  then show ?thesis
    by (simp add: updateUserScore_def Let_def get_set_property or_0_def)
next
  case False
  then show ?thesis
    by (simp add: updateUserScore_def Let_def get_set_property or_0_def)
qed

lemma or_0_positive: "0 < n \<Longrightarrow> or_0 (JSNumber n) = JSNumber n"
  by (simp add: or_0_def)

lemma not_prototype_name: "k \<notin> set prototype_names \<Longrightarrow> k \<noteq> ''__proto__''"
  by (auto simp add: prototype_names_def)

lemma post_answer_active:
  assumes "currentAnswer s = Some expected" "expected \<noteq> []"
      and "currentQuestion s = Some q" "q \<noteq> []"
  shows "post_answer (Some ua) uid s =
     (RenderChat (defaults\<lparr>chat_question := Some q, chat_answer := Some expected,
                           chat_userAnswer := Some ua, chat_correct := Some (grade ua expected)\<rparr>),
      s\<lparr>userScore := (if grade ua expected
                       then updateUserScore (effective_userId uid) True (userScore s)
                       else userScore s),
        questionNumber := updateQuestionNumber (effective_userId uid) (questionNumber s)\<rparr>)"
  using assms by (simp add: post_answer_def not_string_def Let_def)

lemma post_answer_inactive:
  "not_string (currentQuestion s) \<or> not_string (currentAnswer s) \<Longrightarrow>
   post_answer a uid s =
     (RenderChat (defaults\<lparr>chat_question := Some ''Please get a new question first!'',
                           chat_error := Some ''No active question found''\<rparr>), s)"
  by (simp add: post_answer_def Let_def)

lemma post_answer_once:
  assumes "currentQuestion s = Some q" and "q \<noteq> []"
      and "currentAnswer s = Some expected" and "expected \<noteq> []"
      and "effective_userId uid \<notin> set prototype_names"
      and "or_0 (get_property (questionNumber s) (effective_userId uid)) = JSNumber n"
      and "n < 2 ^ precision"
      and "or_0 (get_property (userScore s) (effective_userId uid)) = JSNumber m"
      and "m < 2 ^ precision"
  shows "or_0 (get_property (questionNumber (snd (post_answer (Some ua) uid s)))
            (effective_userId uid)) = JSNumber (n + 1)"
    and "or_0 (get_property (userScore (snd (post_answer (Some ua) uid s)))
            (effective_userId uid)) = JSNumber (m + (if grade ua expected then 1 else 0))"
    and "fst (post_answer (Some ua) uid s)
           = RenderChat (defaults\<lparr>chat_question := Some q, chat_answer := Some expected,
                 chat_userAnswer := Some ua, chat_correct := Some (grade ua expected)\<rparr>)"
    and "currentQuestion (snd (post_answer (Some ua) uid s)) = Some q"
    and "currentAnswer (snd (post_answer (Some ua) uid s)) = Some expected"
    and "triviaQuestions (snd (post_answer (Some ua) uid s)) = triviaQuestions s"
proof -
  note pa = post_answer_active [OF assms(3,4,1,2), of ua uid]
  note np = not_prototype_name [OF assms(5)]
  have "get_property (questionNumber (snd (post_answer (Some ua) uid s))) (effective_userId uid)
        = plus_one (JSNumber n)"
    unfolding pa using np by (simp add: get_updateQuestionNumber assms(6))
  then show "or_0 (get_property (questionNumber (snd (post_answer (Some ua) uid s)))
            (effective_userId uid)) = JSNumber (n + 1)"
    using assms(7) by (simp add: add_one_below or_0_positive)
  show "or_0 (get_property (userScore (snd (post_answer (Some ua) uid s)))
            (effective_userId uid)) = JSNumber (m + (if grade ua expected then 1 else 0))"
  proof (cases "grade ua expected")
    case True
    then have "get_property (userScore (snd (post_answer (Some ua) uid s))) (effective_userId uid)
        = plus_one (JSNumber m)"
      unfolding pa using np by (simp add: get_updateUserScore assms(8))
    then show ?thesis using assms(9) True by (simp add: add_one_below or_0_positive)
  next
    case False
    then have "userScore (snd (post_answer (Some ua) uid s)) = userScore s"
      unfolding pa by simp
    then show ?thesis using False assms(8) by simp
  qed
  show "fst (post_answer (Some ua) uid s)
           = RenderChat (defaults\<lparr>chat_question := Some q, chat_answer := Some expected,
                 chat_userAnswer := Some ua, chat_correct := Some (grade ua expected)\<rparr>)"
    and "currentQuestion (snd (post_answer (Some ua) uid s)) = Some q"
    and "currentAnswer (snd (post_answer (Some ua) uid s)) = Some expected"
    and "triviaQuestions (snd (post_answer (Some ua) uid s)) = triviaQuestions s"
    unfolding pa using assms(1,3) by simp_all
qed

text \<open>
  Claim C4, as the code has it. While a question is active (\<^verbatim>\<open>currentQuestion\<close> and
  \<^verbatim>\<open>currentAnswer\<close> are non-empty strings), for a player whose id names no property of
  \<^verbatim>\<open>Object.prototype\<close> and whose two counts are numbers below \<open>2 ^ 53 - 1\<close> (a missing
  count reads as 0), a submitted answer adds exactly one to the questions-answered count,
  adds one to the score exactly when the grading is true and leaves the score as it is
  otherwise, reports the grading, and leaves the active question and the store as they
  are. The same request sent again counts again: the question count is up by two, the
  score by two when the answer is right.
\<close>

theorem post_answer_counts:
  assumes "currentQuestion s = Some q" and "q \<noteq> []"
      and "currentAnswer s = Some expected" and "expected \<noteq> []"
      and "effective_userId uid \<notin> set prototype_names"
      and "or_0 (get_property (questionNumber s) (effective_userId uid)) = JSNumber n"
      and "n + 1 < 2 ^ precision"
      and "or_0 (get_property (userScore s) (effective_userId uid)) = JSNumber m"
      and "m + 1 < 2 ^ precision"
  shows "or_0 (get_property (questionNumber (snd (post_answer (Some ua) uid s)))
            (effective_userId uid)) = JSNumber (n + 1)
       \<and> or_0 (get_property (userScore (snd (post_answer (Some ua) uid s)))
            (effective_userId uid)) = JSNumber (m + (if grade ua expected then 1 else 0))
       \<and> fst (post_answer (Some ua) uid s)
           = RenderChat (defaults\<lparr>chat_question := Some q, chat_answer := Some expected,
                 chat_userAnswer := Some ua, chat_correct := Some (grade ua expected)\<rparr>)
       \<and> currentQuestion (snd (post_answer (Some ua) uid s)) = Some q
       \<and> currentAnswer (snd (post_answer (Some ua) uid s)) = Some expected
       \<and> triviaQuestions (snd (post_answer (Some ua) uid s)) = triviaQuestions s
       \<and> or_0 (get_property (questionNumber (snd (post_answer (Some ua) uid
              (snd (post_answer (Some ua) uid s))))) (effective_userId uid)) = JSNumber (n + 2)
       \<and> or_0 (get_property (userScore (snd (post_answer (Some ua) uid
              (snd (post_answer (Some ua) uid s))))) (effective_userId uid))
           = JSNumber (m + (if grade ua expected then 2 else 0))"
proof -
  let ?s1 = "snd (post_answer (Some ua) uid s)"
  have n: "n < 2 ^ precision" and m: "m < 2 ^ precision" using assms(7,9) by simp_all
  note first = post_answer_once [OF assms(1-6) n assms(8) m, of ua]
  have m1: "m + (if grade ua expected then 1 else 0) < 2 ^ precision"
    using assms(9) by simp
  note second = post_answer_once [OF first(4) assms(2) first(5) assms(4,5) first(1) assms(7)
      first(2) m1, of ua]
  show ?thesis using first second(1,2) by (simp add: add.assoc)
qed

theorem post_answer_counts_witness:
  "or_0 (get_property (questionNumber (snd (post_answer (Some '' PARIS'') (Some ''ann'')
       two_questions))) ''ann'') = JSNumber 1
   \<and> or_0 (get_property (userScore (snd (post_answer (Some '' PARIS'') (Some ''ann'')
       two_questions))) ''ann'') = JSNumber 1
   \<and> or_0 (get_property (questionNumber (snd (post_answer (Some '' PARIS'') (Some ''ann'')
        (snd (post_answer (Some '' PARIS'') (Some ''ann'') two_questions))))) ''ann'') = JSNumber 2
   \<and> or_0 (get_property (userScore (snd (post_answer (Some '' PARIS'') (Some ''ann'')
        (snd (post_answer (Some '' PARIS'') (Some ''ann'') two_questions))))) ''ann'') = JSNumber 2"
proof -
  have g: "grade '' PARIS'' ''Paris''" by code_simp
  have e: "effective_userId (Some ''ann'') = ''ann''"
    by (simp add: effective_userId_def)
  have o: "''ann'' \<notin> set prototype_names"
    by (simp add: prototype_names_def prototype_functions_def)
  have c: "currentQuestion two_questions = Some ''Capital of France?''"
    "''Capital of France?'' \<noteq> []"
    "currentAnswer two_questions = Some ''Paris''" "''Paris'' \<noteq> []"
    by (simp_all add: two_questions_def)
  have z: "or_0 (get_property (questionNumber two_questions) ''ann'') = JSNumber 0"
    "or_0 (get_property (userScore two_questions) ''ann'') = JSNumber 0"
    by (simp_all add: two_questions_def get_property_def prototype_get_def
          prototype_functions_def or_0_def)
  have b: "(0::nat) + 1 < 2 ^ precision" by (simp add: precision_def)
  show ?thesis
    using post_answer_counts [of two_questions _ _ "Some ''ann''" 0 0 "'' PARIS''",
        unfolded e, OF c o z(1) b z(2) b]
    by (simp add: g)
qed

text \<open>
  Claim C4 as stated fails. A count that has reached \<open>2 ^ 53\<close> stays there, because the
  counts are doubles. And for the player id "constructor" the count read before the
  request is the inherited function, and after the request it is a string.
\<close>

theorem post_answer_counts_counterexample:
  "or_0 (get_property (questionNumber long_player) ''ann'') = JSNumber (2 ^ 53)
   \<and> or_0 (get_property (questionNumber (snd (post_answer (Some ''Paris'') (Some ''ann'')
       long_player))) ''ann'') = JSNumber (2 ^ 53)
   \<and> or_0 (get_property (questionNumber two_questions) ''constructor'') = JSFunction ''Object''
   \<and> or_0 (get_property (questionNumber (snd (post_answer (Some ''Paris'') (Some ''constructor'')
       two_questions))) ''constructor'') = JSString ''function Object() { [native code] }1''"
proof -
  have c: "currentAnswer two_questions = Some ''Paris''" "''Paris'' \<noteq> []"
    "currentQuestion two_questions = Some ''Capital of France?''" "''Capital of France?'' \<noteq> []"
    by (simp_all add: two_questions_def)
  have cl: "currentAnswer long_player = Some ''Paris''"
    "currentQuestion long_player = Some ''Capital of France?''"
    by (simp_all add: long_player_def two_questions_def)
  have q0: "get_property (questionNumber long_player) ''ann'' = JSNumber (2 ^ 53)"
    by (simp add: long_player_def get_property_def)
  have q1: "questionNumber (snd (post_answer (Some ''Paris'') (Some ''ann'') long_player))
      = updateQuestionNumber ''ann'' (questionNumber long_player)"
    unfolding post_answer_active [OF cl(1) c(2) cl(2) c(4)]
    by (simp add: effective_userId_def)
  have p0: "get_property (questionNumber two_questions) ''constructor'' = JSFunction ''Object''"
    by (simp add: two_questions_def get_property_def prototype_get_def)
  have p1: "questionNumber (snd (post_answer (Some ''Paris'') (Some ''constructor'') two_questions))
      = updateQuestionNumber ''constructor'' (questionNumber two_questions)"
    unfolding post_answer_active [OF c]
    by (simp add: effective_userId_def)
  have sat: "add_one 9007199254740992 = 9007199254740992"
    using add_one_saturated by (simp add: precision_def)
  show ?thesis
    unfolding q1 p1 get_updateQuestionNumber q0 p0
    by (simp add: or_0_def sat)
qed

text \<open>
  Claim C5. While no question is active (\<^verbatim>\<open>currentQuestion\<close> or \<^verbatim>\<open>currentAnswer\<close> is
  \<^verbatim>\<open>null\<close>), a submitted answer gets the prompt with the error "No active question found",
  for every player and every answer, and the state, so every score and every
  questions-answered count, stays as it was.
\<close>

theorem post_answer_no_question:
  assumes "currentQuestion s = None \<or> currentAnswer s = None"
  shows "post_answer a uid s =
           (RenderChat (defaults\<lparr>chat_question := Some ''Please get a new question first!'',
                                 chat_error := Some ''No active question found''\<rparr>), s)
       \<and> userScore (snd (post_answer a uid s)) = userScore s
       \<and> questionNumber (snd (post_answer a uid s)) = questionNumber s"
proof -
  have "not_string (currentQuestion s) \<or> not_string (currentAnswer s)"
    using assms by (auto simp add: not_string_def)
  then show ?thesis by (simp add: post_answer_inactive)
qed

theorem post_answer_no_question_witness:
  "post_answer (Some ''Paris'') (Some ''ann'') initial_state =
     (RenderChat (defaults\<lparr>chat_question := Some ''Please get a new question first!'',
                           chat_error := Some ''No active question found''\<rparr>), initial_state)"
  using post_answer_no_question [of initial_state "Some ''Paris''" "Some ''ann''"]
  by (simp add: initial_state_def)

text \<open>
  Claim C9, as the code has it. A request without an answer is not validated. While no
  question is active it gets the same prompt as any other request; while a question is
  active, calling \<^verbatim>\<open>toLowerCase\<close> on \<^verbatim>\<open>undefined\<close> throws a \<^verbatim>\<open>TypeError\<close> that the
  handler does not catch, before any counter is touched.
\<close>

theorem missing_answer:
  "post_answer None uid s =
     (if not_string (currentQuestion s) \<or> not_string (currentAnswer s)
      then (RenderChat (defaults\<lparr>chat_question := Some ''Please get a new question first!'',
                                  chat_error := Some ''No active question found''\<rparr>), s)
      else (UncaughtTypeError, s))"
  by (simp add: post_answer_def Let_def)

text \<open>
  Claim C9 as stated fails: before any question was requested, a request without an
  answer is answered like a request with one, by the prompt, and not by an error about
  the input.
\<close>

theorem missing_answer_counterexample:
  "post_answer None (Some ''ann'') initial_state =
     (RenderChat (defaults\<lparr>chat_question := Some ''Please get a new question first!'',
                           chat_error := Some ''No active question found''\<rparr>), initial_state)
   \<and> post_answer None (Some ''ann'') initial_state
       = post_answer (Some ''Paris'') (Some ''ann'') initial_state"
  by (simp add: post_answer_def Let_def initial_state_def not_string_def)

section \<open>Scores and progress\<close>

lemma get_question_counters:
  "userScore (snd (get_question ax r s)) = userScore s
   \<and> questionNumber (snd (get_question ax r s)) = questionNumber s"
  by (simp add: get_question_def Let_def split: axios_result.splits option.splits prod.splits)

lemma post_answer_cases:
  "snd (post_answer a uid s) = s
   \<or> (\<exists>c. snd (post_answer a uid s) =
         s\<lparr>userScore := (if c then updateUserScore (effective_userId uid) True (userScore s)
                          else userScore s),
           questionNumber := updateQuestionNumber (effective_userId uid) (questionNumber s)\<rparr>)"
  by (auto simp add: post_answer_def Let_def split: option.splits)

lemma counts_in_range_iff:
  "counts_in_range s u \<longleftrightarrow>
     (\<exists>a b. or_0 (get_property (userScore s) u) = JSNumber a
          \<and> or_0 (get_property (questionNumber s) u) = JSNumber b \<and> a \<le> b
          \<and> b \<le> 2 ^ precision)"
  by (auto simp add: counts_in_range_def split: jsval.splits)

lemma counts_in_range_score_le_progress: "counts_in_range s u \<Longrightarrow> score_le_progress s u"
  by (auto simp add: counts_in_range_def score_le_progress_def split: jsval.splits)

lemma add_one_cases:
  assumes "n \<le> 2 ^ precision"
  shows "add_one n = (if n < 2 ^ precision then n + 1 else n)"
proof (cases "n < 2 ^ precision")
  case True
  then show ?thesis by (simp add: add_one_below)
next
  case False
  then have "n = 2 ^ precision" using assms by simp
  then show ?thesis by (simp add: add_one_saturated)
qed

lemma plus_one_count_mono:
  assumes "a \<le> b" and "b \<le> 2 ^ precision"
  shows "\<exists>a' b'. or_0 (plus_one (JSNumber a)) = JSNumber a'
      \<and> or_0 (plus_one (JSNumber b)) = JSNumber b'
      \<and> a' \<le> b' \<and> a \<le> b' \<and> b' \<le> 2 ^ precision"
proof -
  have a: "a \<le> 2 ^ precision" using assms by simp
  show ?thesis
    using assms by (auto simp add: or_0_def add_one_cases [OF a] add_one_cases [OF assms(2)])
qed

lemma update_invariant:
  assumes "counts_in_range s u"
  shows "counts_in_range
      (s\<lparr>userScore := (if c then updateUserScore k True (userScore s) else userScore s),
         questionNumber := updateQuestionNumber k (questionNumber s)\<rparr>) u"
proof -
  from assms obtain a b where a: "or_0 (get_property (userScore s) u) = JSNumber a"
    and b: "or_0 (get_property (questionNumber s) u) = JSNumber b" and ab: "a \<le> b"
    and bp: "b \<le> 2 ^ precision"
    unfolding counts_in_range_iff by blast
  show ?thesis
  proof (cases "u = k \<and> k \<noteq> ''__proto__''")
    case False
    then show ?thesis
      unfolding counts_in_range_iff using a b ab bp
      by (auto simp add: get_updateQuestionNumber get_updateUserScore)
  next
    case True
    from plus_one_count_mono [OF ab bp] obtain a' b'
      where "or_0 (plus_one (JSNumber a)) = JSNumber a'"
        and "or_0 (plus_one (JSNumber b)) = JSNumber b'" and "a' \<le> b'" and "a \<le> b'"
        and "b' \<le> 2 ^ precision"
      by blast
    then show ?thesis
      unfolding counts_in_range_iff using True a b
      by (cases c) (simp_all add: get_updateQuestionNumber get_updateUserScore)
  qed
qed

lemma handle_invariant: "counts_in_range s u \<Longrightarrow> counts_in_range (snd (handle r s)) u"
proof (cases r)
  case (GetQuestion ax rnd)
  then show "counts_in_range s u \<Longrightarrow> ?thesis"
    by (simp add: counts_in_range_def get_question_counters)
next
  case (PostAnswer a uid)
  assume inv: "counts_in_range s u"
  from post_answer_cases [of a uid s] show ?thesis
  proof
    assume "snd (post_answer a uid s) = s"
    then show ?thesis using inv by (simp add: PostAnswer)
  next
    assume "\<exists>c. snd (post_answer a uid s) =
         s\<lparr>userScore := (if c then updateUserScore (effective_userId uid) True (userScore s)
                          else userScore s),
           questionNumber := updateQuestionNumber (effective_userId uid) (questionNumber s)\<rparr>"
    then obtain c where e: "snd (post_answer a uid s) =
         s\<lparr>userScore := (if c then updateUserScore (effective_userId uid) True (userScore s)
                          else userScore s),
           questionNumber := updateQuestionNumber (effective_userId uid) (questionNumber s)\<rparr>" ..
    show ?thesis
      unfolding PostAnswer handle.simps e using inv by (rule update_invariant)
  qed
next
  case (GetScore uid)
  then show "counts_in_range s u \<Longrightarrow> ?thesis" by (simp add: get_score_def Let_def)
qed

lemma run_invariant: "counts_in_range s u \<Longrightarrow> counts_in_range (run rs s) u"
  by (induction rs arbitrary: s) (simp_all add: handle_invariant)

text \<open>For a user id that names no property of \<^verbatim>\<open>Object.prototype\<close> the ledgers agree.\<close>

lemma score_le_progress_ordinary:
  assumes "u \<notin> set prototype_names"
  shows "score_le_progress (run rs initial_state) u"
proof -
  have "prototype_get u = JSUndefined" and "u \<noteq> ''__proto__''"
    using assms by (auto simp add: prototype_get_def prototype_names_def)
  then have "counts_in_range initial_state u"
    by (simp add: counts_in_range_def initial_state_def get_property_def or_0_def)
  then have "counts_in_range (run rs initial_state) u" by (rule run_invariant)
  then show ?thesis by (rule counts_in_range_score_le_progress)
qed

text \<open>
  Claim C10 on the code. The score of a player is at most the questions-answered count of
  the player, a missing count read as 0, when the player id names no property of
  \<^verbatim>\<open>Object.prototype\<close> (\<open>score_le_progress_ordinary\<close>). For a player id that names one the
  code breaks the claim: on the fresh server the missing counts of "constructor" are read
  as the inherited function and not as 0, an answer makes the questions-answered count of
  "constructor" a string, and the counts of "__proto__" are the prototype object before
  and after an answer.
\<close>

theorem inherited_id_not_counted:
  "fst (get_score (Some ''constructor'') initial_state)
     = ScoreJson (JSFunction ''Object'') (JSFunction ''Object'')
   \<and> \<not> score_le_progress initial_state ''constructor''
   \<and> fst (get_score (Some ''constructor'')
        (snd (post_answer (Some ''Rome'') (Some ''constructor'') two_questions)))
     = ScoreJson (JSFunction ''Object'') (JSString ''function Object() { [native code] }1'')
   \<and> fst (get_score (Some ''__proto__'')
        (snd (post_answer (Some ''Paris'') (Some ''__proto__'') two_questions)))
     = ScoreJson JSObjectPrototype JSObjectPrototype"
proof -
  have c: "currentAnswer two_questions = Some ''Paris''" "''Paris'' \<noteq> []"
    "currentQuestion two_questions = Some ''Capital of France?''" "''Capital of France?'' \<noteq> []"
    by (simp_all add: two_questions_def)
  have g: "\<not> grade ''Rome'' ''Paris''" "grade ''Paris'' ''Paris''" by code_simp+
  have i: "get_property (userScore initial_state) ''constructor'' = JSFunction ''Object''"
    "get_property (questionNumber initial_state) ''constructor'' = JSFunction ''Object''"
    by (simp_all add: initial_state_def get_property_def prototype_get_def)
  have t: "get_property (userScore two_questions) ''constructor'' = JSFunction ''Object''"
    "get_property (questionNumber two_questions) ''constructor'' = JSFunction ''Object''"
    by (simp_all add: two_questions_def get_property_def prototype_get_def)
  have e: "effective_userId (Some ''constructor'') = ''constructor''"
    "effective_userId (Some ''__proto__'') = ''__proto__''"
    by (simp_all add: effective_userId_def)
  have p: "get_property obj ''__proto__'' = JSObjectPrototype" for obj
    by (simp add: get_property_def)
  show ?thesis
    unfolding post_answer_active [OF c] get_score_def Let_def e
    by (simp add: g i t p get_updateQuestionNumber get_updateUserScore or_0_def
          score_le_progress_def)
qed

section \<open>Requesting a question: the fallback\<close>

lemma get_question_rejected_nonempty:
  assumes "triviaQuestions s \<noteq> []" and "is_double random" and "random < 1"
  shows "get_question Rejected random s =
           (RenderChat (defaults\<lparr>chat_question := Some (question
              (triviaQuestions s ! nat (randomIndex random (length (triviaQuestions s)))))\<rparr>), s)"
proof -
  have "0 < length (triviaQuestions s)" using assms(1) by simp
  from randomIndex_in_range [OF assms(2,3) this] show ?thesis
    using assms(1) by (simp add: get_question_def Let_def)
qed

lemma get_question_rejected_empty:
  "triviaQuestions s = [] \<Longrightarrow>
   get_question Rejected random s = (Status500 ''Unable to get trivia question'', s)"
  by (simp add: get_question_def)

lemma get_question_unparsed:
  "(case parseQA (trim content) of None \<Rightarrow> True | Some (q, a) \<Rightarrow> q = [] \<or> a = []) \<Longrightarrow>
   get_question (Resolved content) random s =
     (Status500 ''Could not parse question/answer from AI response'', s)"
  by (auto simp add: get_question_def split: option.splits)

lemma is_double_three_quarters: "is_double (3 / 4)" "(3 / 4 :: rat) < 1"
  using is_double_dyadic [of 3 2] by (simp_all add: precision_def emin_def)

lemma is_double_seven_tenths:
  "is_double (3152519739159347 / 2 ^ 52)" "(3152519739159347 / 2 ^ 52 :: rat) < 1"
  using is_double_dyadic [of 3152519739159347 52] by (simp_all add: precision_def emin_def)

text \<open>
  Claim C3. When the call to the generator is rejected and the store is not empty, the
  handler renders the question text of the stored record at the random index, which is
  within the store for every double that \<^verbatim>\<open>Math.random()\<close> can return, and
  \<^verbatim>\<open>currentQuestion\<close> and \<^verbatim>\<open>currentAnswer\<close> keep the values they had before the request.
\<close>

theorem fallback_keeps_current:
  assumes "triviaQuestions s \<noteq> []" and "is_double random" and "random < 1"
  shows "0 \<le> randomIndex random (length (triviaQuestions s))
       \<and> randomIndex random (length (triviaQuestions s)) < int (length (triviaQuestions s))
       \<and> fst (get_question Rejected random s) =
           RenderChat (defaults\<lparr>chat_question := Some (question
              (triviaQuestions s ! nat (randomIndex random (length (triviaQuestions s)))))\<rparr>)
       \<and> currentQuestion (snd (get_question Rejected random s)) = currentQuestion s
       \<and> currentAnswer (snd (get_question Rejected random s)) = currentAnswer s"
proof -
  have "0 < length (triviaQuestions s)" using assms(1) by simp
  from randomIndex_in_range [OF assms(2,3) this] show ?thesis
    by (simp add: get_question_rejected_nonempty [OF assms])
qed

theorem fallback_keeps_current_witness:
  "triviaQuestions ten_questions \<noteq> []
   \<and> is_double (3152519739159347 / 2 ^ 52) \<and> (3152519739159347 / 2 ^ 52 :: rat) < 1
   \<and> randomIndex (3152519739159347 / 2 ^ 52) (length (triviaQuestions ten_questions)) = 7
   \<and> fst (get_question Rejected (3152519739159347 / 2 ^ 52) ten_questions) =
        RenderChat (defaults\<lparr>chat_question := Some ''????????''\<rparr>)
   \<and> currentQuestion (snd (get_question Rejected (3152519739159347 / 2 ^ 52) ten_questions))
        = Some ''Capital of France?''
   \<and> currentAnswer (snd (get_question Rejected (3152519739159347 / 2 ^ 52) ten_questions))
        = Some ''Paris''"
proof -
  have l: "length (triviaQuestions ten_questions) = 10"
    by (simp add: ten_questions_def)
  have p: "triviaQuestions ten_questions \<noteq> []" using l by auto
  have i: "randomIndex (3152519739159347 / 2 ^ 52) (length (triviaQuestions ten_questions)) = 7"
    unfolding l by (rule randomIndex_example)
  have q: "question (triviaQuestions ten_questions ! nat 7) = ''????????''"
    by code_simp
  have c: "currentQuestion ten_questions = Some ''Capital of France?''"
    "currentAnswer ten_questions = Some ''Paris''"
    by (simp_all add: ten_questions_def two_questions_def)
  show ?thesis
    using fallback_keeps_current [OF p is_double_seven_tenths] p is_double_seven_tenths
    unfolding i q c by simp
qed

text \<open>
  Claim C1, as the code has it. Only a rejected call to the generator reaches the stored
  questions: with a store that is not empty the handler renders the question of a stored
  record, with an empty store it answers with the error "Unable to get trivia question";
  the state is unchanged in both cases. A reply that cannot be parsed into a non-empty
  question and a non-empty answer is answered with the error "Could not parse
  question/answer from AI response", the state unchanged, and the store is not consulted.
\<close>

theorem fallback_only_on_rejection:
  "(triviaQuestions s \<noteq> [] \<and> is_double random \<and> 0 \<le> random \<and> random < 1 \<longrightarrow>
      (\<exists>i < length (triviaQuestions s). get_question Rejected random s =
         (RenderChat (defaults\<lparr>chat_question := Some (question (triviaQuestions s ! i))\<rparr>), s)))
   \<and> (triviaQuestions s = [] \<longrightarrow>
        get_question Rejected random s = (Status500 ''Unable to get trivia question'', s))
   \<and> ((case parseQA (trim content) of None \<Rightarrow> True | Some (q, a) \<Rightarrow> q = [] \<or> a = []) \<longrightarrow>
        get_question (Resolved content) random s =
          (Status500 ''Could not parse question/answer from AI response'', s))"
proof (intro conjI impI)
  assume h: "triviaQuestions s \<noteq> [] \<and> is_double random \<and> 0 \<le> random \<and> random < 1"
  then have "0 < length (triviaQuestions s)" by simp
  with h randomIndex_in_range [of random "length (triviaQuestions s)"]
  have "nat (randomIndex random (length (triviaQuestions s))) < length (triviaQuestions s)"
    by linarith
  moreover have "get_question Rejected random s =
           (RenderChat (defaults\<lparr>chat_question := Some (question
              (triviaQuestions s ! nat (randomIndex random (length (triviaQuestions s)))))\<rparr>), s)"
    using h by (simp add: get_question_rejected_nonempty)
  ultimately show "\<exists>i < length (triviaQuestions s). get_question Rejected random s =
         (RenderChat (defaults\<lparr>chat_question := Some (question (triviaQuestions s ! i))\<rparr>), s)"
    by blast
next
  assume "triviaQuestions s = []"
  then show "get_question Rejected random s = (Status500 ''Unable to get trivia question'', s)"
    by (rule get_question_rejected_empty)
next
  assume "case parseQA (trim content) of None \<Rightarrow> True | Some (q, a) \<Rightarrow> q = [] \<or> a = []"
  then show "get_question (Resolved content) random s =
          (Status500 ''Could not parse question/answer from AI response'', s)"
    by (rule get_question_unparsed)
qed

theorem fallback_only_on_rejection_witness:
  "triviaQuestions two_questions \<noteq> [] \<and> is_double (3 / 4) \<and> (0::rat) \<le> 3 / 4 \<and> (3 / 4 :: rat) < 1
   \<and> (\<exists>i < length (triviaQuestions two_questions). get_question Rejected (3 / 4) two_questions =
         (RenderChat (defaults\<lparr>chat_question := Some (question (triviaQuestions two_questions ! i))\<rparr>),
          two_questions))
   \<and> triviaQuestions initial_state = []
   \<and> get_question Rejected (3 / 4) initial_state =
        (Status500 ''Unable to get trivia question'', initial_state)
   \<and> (case parseQA (trim ''Question: Answer: 42'') of None \<Rightarrow> True | Some (q, a) \<Rightarrow> q = [] \<or> a = [])
   \<and> get_question (Resolved ''Question: Answer: 42'') (3 / 4) two_questions =
        (Status500 ''Could not parse question/answer from AI response'', two_questions)"
proof -
  have p: "triviaQuestions two_questions \<noteq> [] \<and> is_double (3 / 4) \<and> (0::rat) \<le> 3 / 4
           \<and> (3 / 4 :: rat) < 1"
    using is_double_three_quarters by (simp add: two_questions_def)
  have e: "triviaQuestions initial_state = []" by (simp add: initial_state_def)
  have u: "case parseQA (trim ''Question: Answer: 42'') of None \<Rightarrow> True
           | Some (q, a) \<Rightarrow> q = [] \<or> a = []"
    by code_simp
  note t1 = fallback_only_on_rejection [of two_questions "3 / 4", THEN conjunct1, THEN mp, OF p]
  note t2 = fallback_only_on_rejection [of initial_state "3 / 4", THEN conjunct2, THEN conjunct1, THEN mp, OF e]
  note t3 = fallback_only_on_rejection [of two_questions "3 / 4" "''Question: Answer: 42''",
              THEN conjunct2, THEN conjunct2, THEN mp, OF u]
  show ?thesis using p e u t1 t2 t3 by blast
qed

text \<open>
  Claim C1 as stated fails: with two stored questions, a reply without the labels is
  answered with the parse error and not with a stored question.
\<close>

theorem fallback_counterexample:
  "parseQA (trim ''I cannot think of a question.'') = None
   \<and> triviaQuestions two_questions \<noteq> []
   \<and> get_question (Resolved ''I cannot think of a question.'') (3 / 4) two_questions =
       (Status500 ''Could not parse question/answer from AI response'', two_questions)"
proof -
  have p: "parseQA (trim ''I cannot think of a question.'') = None" by code_simp
  show ?thesis by (simp add: get_question_def p two_questions_def)
qed

section \<open>Parsing: the pattern and the split\<close>

lemma first_some_map: "first_some f (map g xs) = first_some (\<lambda>x. f (g x)) xs"
  by (induction xs) (simp_all split: option.splits)

lemma first_some_None: "first_some f xs = None \<longleftrightarrow> (\<forall>x \<in> set xs. f x = None)"
  by (induction xs) (auto split: option.splits)

lemma upt_0_Suc_Suc: "[0..<Suc (Suc n)] = 0 # map Suc [0..<Suc n]"
  by (simp only: upt_conv_Cons [of 0 "Suc (Suc n)"] map_Suc_upt)

lemma any_lazy_Nil: "any_lazy k [] = k [] []"
  by (simp add: any_lazy_def split: option.splits)

lemma any_lazy_Cons:
  "any_lazy k (c # cs) =
     (case k [] (c # cs) of Some y \<Rightarrow> Some y | None \<Rightarrow> any_lazy (\<lambda>g. k (c # g)) cs)"
  unfolding any_lazy_def length_Cons upt_0_Suc_Suc
  by (simp add: first_some_map split: option.splits del: upt_Suc)

lemma match_qa_Nil: "match_qa [] = qa_pattern []"
  by (simp add: match_qa_def split: option.splits)

lemma match_qa_Cons:
  "match_qa (c # cs) = (case qa_pattern (c # cs) of Some y \<Rightarrow> Some y | None \<Rightarrow> match_qa cs)"
  unfolding match_qa_def length_Cons upt_0_Suc_Suc
  by (simp add: first_some_map split: option.splits del: upt_Suc)

lemma first_some_greedy:
  "first_some f (rev [0..<Suc n]) =
     (case f n of Some y \<Rightarrow> Some y | None \<Rightarrow> first_some f (rev [0..<n]))"
  by simp

lemma any_greedy_always: "any_greedy (\<lambda>g2 rest. Some (F g2)) s = Some (F s)"
  unfolding any_greedy_def first_some_greedy by simp

lemma drop_length_takeWhile: "drop (length (takeWhile P s)) s = dropWhile P s"
  by (simp add: dropWhile_eq_drop)

lemma ws_star_first:
  "k (dropWhile isWhiteSpace s) = Some y \<Longrightarrow> ws_star k s = Some y"
  unfolding ws_star_def first_some_greedy by (simp add: drop_length_takeWhile)

lemma canonicalize_A: "canonicalize c = canonicalize CHR ''A'' \<Longrightarrow> \<not> isWhiteSpace c"
  unfolding canonicalize_def isWhiteSpace_def Let_def
  by (auto split: if_splits)

lemma ci_prefix_Answer_not_ws:
  "ci_prefix ''Answer:'' r \<Longrightarrow> \<exists>c cs. r = c # cs \<and> \<not> isWhiteSpace c"
  by (cases r) (auto simp add: canonicalize_A)


lemma ws_star_None:
  "(\<And>i. i \<le> length (takeWhile isWhiteSpace s) \<Longrightarrow> k (drop i s) = None) \<Longrightarrow> ws_star k s = None"
  unfolding ws_star_def first_some_None by auto

lemma drop_in_ws_run:
  assumes "i < length (takeWhile isWhiteSpace s)"
  shows "\<exists>c cs. drop i s = c # cs \<and> isWhiteSpace c"
proof -
  have len: "i < length s"
    using assms length_takeWhile_le [of isWhiteSpace s] by simp
  have "s ! i = takeWhile isWhiteSpace s ! i" using assms by (simp add: takeWhile_nth)
  then have "s ! i \<in> set (takeWhile isWhiteSpace s)" using assms by (metis nth_mem)
  then have "isWhiteSpace (s ! i)" by (rule set_takeWhileD [THEN conjunct2])
  moreover have "drop i s = s ! i # drop (Suc i) s" using len by (simp add: Cons_nth_drop_Suc)
  ultimately show ?thesis by blast
qed

lemma answer_tail:
  "ws_star (lit_ci ''Answer:'' (ws_star (any_greedy (\<lambda>g2 rest. Some (x, g2))))) s =
     (if ci_prefix ''Answer:'' (dropWhile isWhiteSpace s)
      then Some (x, dropWhile isWhiteSpace (drop 7 (dropWhile isWhiteSpace s)))
      else None)"
proof -
  let ?k2 = "ws_star (any_greedy (\<lambda>g2 rest. Some (x, g2)))"
  have k2: "?k2 r = Some (x, dropWhile isWhiteSpace r)" for r
    by (rule ws_star_first) (rule any_greedy_always)
  have k1: "lit_ci ''Answer:'' ?k2 r =
      (if ci_prefix ''Answer:'' r then Some (x, dropWhile isWhiteSpace (drop 7 r)) else None)" for r
    by (simp add: lit_ci_def k2 eval_nat_numeral)
  show ?thesis
  proof (cases "ci_prefix ''Answer:'' (dropWhile isWhiteSpace s)")
    case True
    then have "lit_ci ''Answer:'' ?k2 (dropWhile isWhiteSpace s) =
        Some (x, dropWhile isWhiteSpace (drop 7 (dropWhile isWhiteSpace s)))"
      by (simp only: k1 if_True)
    then show ?thesis using True by (simp only: ws_star_first if_True)
  next
    case False
    have "ws_star (lit_ci ''Answer:'' ?k2) s = None"
    proof (rule ws_star_None)
      fix i assume i: "i \<le> length (takeWhile isWhiteSpace s)"
      show "lit_ci ''Answer:'' ?k2 (drop i s) = None"
      proof (cases "i = length (takeWhile isWhiteSpace s)")
        case True
        then show ?thesis using False by (simp only: k1 drop_length_takeWhile if_False)
      next
        case False
        then have "i < length (takeWhile isWhiteSpace s)" using i by simp
        from drop_in_ws_run [OF this] obtain c cs where "drop i s = c # cs" "isWhiteSpace c"
          by blast
        then have "\<not> ci_prefix ''Answer:'' (drop i s)"
          using ci_prefix_Answer_not_ws [of "drop i s"] by auto
        then show ?thesis by (simp only: k1 if_False)
      qed
    qed
    then show ?thesis using False by simp
  qed
qed

lemma strip_trailing_Cons:
  "strip_trailing (c # x) =
     (if (\<forall>y \<in> set (c # x). isWhiteSpace y) then [] else c # strip_trailing x)"
  by (auto simp add: strip_trailing_def dropWhile_append)

lemma strip_trailing_all_ws: "(\<forall>y \<in> set x. isWhiteSpace y) \<Longrightarrow> strip_trailing x = []"
  by (simp add: strip_trailing_def)

lemma trim_strip_trailing: "trim x = strip_trailing (dropWhile isWhiteSpace x)"
  by (simp add: trim_def strip_trailing_def)

lemma find_ci_Some_prefix: "find_ci l s = Some p \<Longrightarrow> ci_prefix l (drop p s)"
  by (induction s arbitrary: p) (auto split: if_splits)

lemma find_ci_drop_None: "find_ci l s = None \<Longrightarrow> find_ci l (drop i s) = None"
proof (induction s arbitrary: i)
  case Nil
  then show ?case by simp
next
  case (Cons c cs)
  then show ?case by (cases i) (auto split: if_splits)
qed

lemma find_ci_Answer_ws:
  "isWhiteSpace c \<Longrightarrow> find_ci ''Answer:'' (c # cs) = map_option Suc (find_ci ''Answer:'' cs)"
  using ci_prefix_Answer_not_ws [of "c # cs"] by auto

lemma find_ci_Answer_skip_ws:
  "find_ci ''Answer:'' s =
     map_option (\<lambda>p. length (takeWhile isWhiteSpace s) + p)
       (find_ci ''Answer:'' (dropWhile isWhiteSpace s))"
proof (induction s)
  case Nil
  then show ?case by simp
next
  case (Cons c cs)
  show ?case
  proof (cases "isWhiteSpace c")
    case True
    then show ?thesis
      by (simp only: find_ci_Answer_ws Cons.IH takeWhile.simps dropWhile.simps if_True
            option.map_comp) (simp add: comp_def)
  next
    case False
    then show ?thesis by (simp add: option.map_ident)
  qed
qed


lemma find_ci_Answer_at_ws_end:
  assumes "ci_prefix ''Answer:'' (dropWhile isWhiteSpace s)"
  shows "find_ci ''Answer:'' s = Some (length (takeWhile isWhiteSpace s))"
proof -
  have "find_ci ''Answer:'' (dropWhile isWhiteSpace s) = Some 0"
    using assms by (cases "dropWhile isWhiteSpace s") simp_all
  then show ?thesis by (simp add: find_ci_Answer_skip_ws [of s])
qed

lemma length_Question: "length ''Question:'' = 9"
  by simp

lemma length_Answer: "length ''Answer:'' = 7"
  by simp

lemma lazy_answer:
  "any_lazy (\<lambda>g1. ws_star (lit_ci ''Answer:'' (ws_star (any_greedy (\<lambda>g2 rest. Some (F g1, g2)))))) s =
     (case find_ci ''Answer:'' s of
        None \<Rightarrow> None
      | Some p \<Rightarrow> Some (F (strip_trailing (take p s)), dropWhile isWhiteSpace (drop (p + 7) s)))"
proof (induction s arbitrary: F)
  case Nil
  show ?case by (simp add: any_lazy_Nil answer_tail)
next
  case (Cons c cs)
  show ?case
  proof (cases "ci_prefix ''Answer:'' (dropWhile isWhiteSpace (c # cs))")
    case True
    let ?w = "length (takeWhile isWhiteSpace (c # cs))"
    have f: "find_ci ''Answer:'' (c # cs) = Some ?w"
      using True by (rule find_ci_Answer_at_ws_end)
    have t: "strip_trailing (take ?w (c # cs)) = []"
      by (rule strip_trailing_all_ws)
         (metis set_takeWhileD takeWhile_eq_take)
    have d: "drop (?w + 7) (c # cs) = drop 7 (dropWhile isWhiteSpace (c # cs))"
      by (simp only: drop_length_takeWhile [symmetric] drop_drop add.commute)
    have head: "ws_star (lit_ci ''Answer:'' (ws_star (any_greedy (\<lambda>g2 rest. Some (F [], g2)))))
                  (c # cs)
                = Some (F [], dropWhile isWhiteSpace (drop 7 (dropWhile isWhiteSpace (c # cs))))"
      using True by (simp only: answer_tail if_True)
    show ?thesis
      by (simp only: any_lazy_Cons head option.case f t d)
  next
    case False
    have np: "\<not> ci_prefix ''Answer:'' (c # cs)"
    proof
      assume a: "ci_prefix ''Answer:'' (c # cs)"
      then have "\<not> isWhiteSpace c" using ci_prefix_Answer_not_ws [of "c # cs"] by blast
      then have eq: "dropWhile isWhiteSpace (c # cs) = c # cs" by simp
      show False using False a unfolding eq by (rule notE)
    qed
    have step: "any_lazy (\<lambda>g1. ws_star (lit_ci ''Answer:''
                  (ws_star (any_greedy (\<lambda>g2 rest. Some (F g1, g2)))))) (c # cs) =
          (case find_ci ''Answer:'' cs of
             None \<Rightarrow> None
           | Some p \<Rightarrow> Some (F (c # strip_trailing (take p cs)),
                             dropWhile isWhiteSpace (drop (p + 7) cs)))"
    proof -
      have head: "ws_star (lit_ci ''Answer:''
                    (ws_star (any_greedy (\<lambda>g2 rest. Some (F [], g2))))) (c # cs) = None"
        using False by (simp only: answer_tail if_False)
      show ?thesis
        by (simp only: any_lazy_Cons head option.case Cons.IH [of "\<lambda>g. F (c # g)"])
    qed
    show ?thesis
    proof (cases "find_ci ''Answer:'' cs")
      case None
      have "find_ci ''Answer:'' (c # cs) = None"
        by (simp only: find_ci.simps np if_False None option.map)
      then show ?thesis by (simp only: step None option.case)
    next
      case (Some p)
      have fc: "find_ci ''Answer:'' (c # cs) = Some (Suc p)"
        by (simp only: find_ci.simps np if_False Some option.map)
      have "\<not> (\<forall>y \<in> set (c # take p cs). isWhiteSpace y)"
      proof
        assume all: "\<forall>y \<in> set (c # take p cs). isWhiteSpace y"
        then have "dropWhile isWhiteSpace (c # cs) = dropWhile isWhiteSpace (take p cs @ drop p cs)"
          by simp
        also have "\<dots> = dropWhile isWhiteSpace (drop p cs)"
          using all by (simp only: dropWhile_append2 list.set_intros)
        finally have e: "dropWhile isWhiteSpace (c # cs) = dropWhile isWhiteSpace (drop p cs)" .
        have pre: "ci_prefix ''Answer:'' (drop p cs)" using Some by (rule find_ci_Some_prefix)
        then obtain d ds where "drop p cs = d # ds" "\<not> isWhiteSpace d"
          using ci_prefix_Answer_not_ws by blast
        then have "dropWhile isWhiteSpace (drop p cs) = drop p cs" by simp
        with e have eq: "dropWhile isWhiteSpace (c # cs) = drop p cs" by (rule trans)
        show False using False pre unfolding eq by (rule notE)
      qed
      then have "strip_trailing (c # take p cs) = c # strip_trailing (take p cs)"
        by (simp only: strip_trailing_Cons if_False)
      then show ?thesis
        by (simp only: step Some fc option.case take_Suc_Cons add_Suc drop_Suc_Cons)
    qed
  qed
qed

lemma dropWhile_take_dropWhile:
  "dropWhile P (take p (dropWhile P r)) = take p (dropWhile P r)"
proof (cases "take p (dropWhile P r)")
  case Nil
  show ?thesis unfolding Nil by simp
next
  case (Cons d ds)
  have "dropWhile P r \<noteq> []"
  proof
    assume "dropWhile P r = []"
    then have "take p (dropWhile P r) = []" by (simp only: take_Nil)
    with Cons show False by simp
  qed
  then have "\<not> P (hd (dropWhile P r))" by (rule hd_dropWhile)
  moreover have "hd (dropWhile P r) = d" using Cons by (cases "dropWhile P r"; cases p) auto
  ultimately show ?thesis using Cons by simp
qed

lemma take_ws_run_plus:
  "take (length (takeWhile P r) + p) r = takeWhile P r @ take p (dropWhile P r)"
proof -
  have "take (length (takeWhile P r) + p) (takeWhile P r @ dropWhile P r)
        = takeWhile P r @ take p (dropWhile P r)"
    by (simp only: take_append take_all_iff diff_add_inverse) simp
  then show ?thesis by (simp only: takeWhile_dropWhile_id)
qed

lemma trim_take_ws_run_plus:
  "trim (take (length (takeWhile isWhiteSpace r) + p) r)
     = strip_trailing (take p (dropWhile isWhiteSpace r))"
proof -
  have "dropWhile isWhiteSpace (takeWhile isWhiteSpace r @ take p (dropWhile isWhiteSpace r))
        = dropWhile isWhiteSpace (take p (dropWhile isWhiteSpace r))"
    by (rule dropWhile_append2) (rule set_takeWhileD [THEN conjunct2])
  then show ?thesis
    by (simp only: trim_strip_trailing take_ws_run_plus dropWhile_take_dropWhile)
qed

lemma drop_ws_run_plus:
  "drop (p + 7) (dropWhile P r) = drop (length (takeWhile P r) + p + 7) r"
proof -
  have "drop (p + 7) (drop (length (takeWhile P r)) r) = drop (length (takeWhile P r) + p + 7) r"
    unfolding drop_drop by (simp add: ac_simps)
  then show ?thesis by (simp only: drop_length_takeWhile)
qed

lemma after_question:
  "ws_star (any_lazy (\<lambda>g1. ws_star (lit_ci ''Answer:''
       (ws_star (any_greedy (\<lambda>g2 rest. Some (g1, g2))))))) r =
     (case find_ci ''Answer:'' r of
        None \<Rightarrow> None
      | Some j \<Rightarrow> Some (trim (take j r), dropWhile isWhiteSpace (drop (j + 7) r)))"
proof (cases "find_ci ''Answer:'' r")
  case None
  have "ws_star (any_lazy (\<lambda>g1. ws_star (lit_ci ''Answer:''
       (ws_star (any_greedy (\<lambda>g2 rest. Some (g1, g2))))))) r = None"
  proof (rule ws_star_None)
    fix i
    show "any_lazy (\<lambda>g1. ws_star (lit_ci ''Answer:''
       (ws_star (any_greedy (\<lambda>g2 rest. Some (g1, g2)))))) (drop i r) = None"
      by (simp only: lazy_answer [of "\<lambda>g. g"] find_ci_drop_None [OF None] option.case)
  qed
  then show ?thesis by (simp only: None option.case)
next
  case (Some j)
  let ?n = "length (takeWhile isWhiteSpace r)"
  let ?s = "dropWhile isWhiteSpace r"
  from Some obtain p where p: "find_ci ''Answer:'' ?s = Some p" and j: "j = ?n + p"
    using find_ci_Answer_skip_ws [of r] by (cases "find_ci ''Answer:'' ?s") simp_all
  have "any_lazy (\<lambda>g1. ws_star (lit_ci ''Answer:''
       (ws_star (any_greedy (\<lambda>g2 rest. Some (g1, g2)))))) ?s
        = Some (trim (take j r), dropWhile isWhiteSpace (drop (j + 7) r))"
    by (simp only: lazy_answer [of "\<lambda>g. g"] p option.case j trim_take_ws_run_plus
          drop_ws_run_plus)
  then have "ws_star (any_lazy (\<lambda>g1. ws_star (lit_ci ''Answer:''
       (ws_star (any_greedy (\<lambda>g2 rest. Some (g1, g2))))))) r
        = Some (trim (take j r), dropWhile isWhiteSpace (drop (j + 7) r))"
    by (rule ws_star_first)
  then show ?thesis by (simp only: Some option.case)
qed

lemma qa_pattern_closed:
  "qa_pattern r =
     (if ci_prefix ''Question:'' r
      then (case find_ci ''Answer:'' (drop 9 r) of
              None \<Rightarrow> None
            | Some j \<Rightarrow> Some (trim (take j (drop 9 r)),
                              dropWhile isWhiteSpace (drop (j + 7) (drop 9 r))))
      else None)"
  unfolding qa_pattern_def lit_ci_def [of "''Question:''"] after_question length_Question
  by (rule refl)

lemma match_qa_closed:
  "match_qa reply =
     (case find_ci ''Question:'' reply of
        None \<Rightarrow> None
      | Some i \<Rightarrow>
          (case find_ci ''Answer:'' (drop (i + 9) reply) of
             None \<Rightarrow> None
           | Some j \<Rightarrow> Some (trim (take j (drop (i + 9) reply)),
                             dropWhile isWhiteSpace (drop (j + 7) (drop (i + 9) reply)))))"
proof (induction reply)
  case Nil
  show ?case by (simp add: match_qa_Nil qa_pattern_closed)
next
  case (Cons c cs)
  show ?case
  proof (cases "ci_prefix ''Question:'' (c # cs)")
    case False
    have q: "qa_pattern (c # cs) = None"
      by (simp only: qa_pattern_closed False if_False)
    have f: "find_ci ''Question:'' (c # cs) = map_option Suc (find_ci ''Question:'' cs)"
      by (simp only: find_ci.simps False if_False)
    show ?thesis
      by (cases "find_ci ''Question:'' cs")
         (simp_all only: match_qa_Cons q option.case Cons.IH f option.map add_Suc drop_Suc_Cons)
  next
    case True
    have f: "find_ci ''Question:'' (c # cs) = Some 0"
      by (simp only: find_ci.simps True if_True)
    show ?thesis
    proof (cases "find_ci ''Answer:'' (drop 9 (c # cs))")
      case (Some j)
      have "qa_pattern (c # cs) = Some (trim (take j (drop 9 (c # cs))),
              dropWhile isWhiteSpace (drop (j + 7) (drop 9 (c # cs))))"
        by (simp only: qa_pattern_closed True if_True Some option.case)
      then show ?thesis
        by (simp only: match_qa_Cons option.case f add_0 Some)
    next
      case None
      have q: "qa_pattern (c # cs) = None"
        by (simp only: qa_pattern_closed True if_True None option.case)
      have "find_ci ''Answer:'' (drop (i + 9) cs) = None" for i
      proof -
        have eq: "drop (Suc i) (drop 9 (c # cs)) = drop (i + 9) cs"
          by (simp only: drop_drop add_Suc drop_Suc_Cons)
        show ?thesis using find_ci_drop_None [OF None, of "Suc i"] unfolding eq .
      qed
      then have "match_qa cs = None"
        by (cases "find_ci ''Question:'' cs") (simp_all only: Cons.IH option.case)
      then show ?thesis
        by (simp only: match_qa_Cons q option.case f add_0 None)
    qed
  qed
qed

lemma match_qa_strict_shape:
  "match_qa reply = map_option (\<lambda>(q, a). (trim q, dropWhile isWhiteSpace a)) (strict_shape reply)"
proof (cases "find_ci ''Question:'' reply")
  case None
  then show ?thesis
    by (simp only: match_qa_closed strict_shape_def option.case option.map)
next
  case (Some i)
  show ?thesis
    by (cases "find_ci ''Answer:'' (drop (i + 9) reply)")
       (simp_all only: match_qa_closed strict_shape_def Some option.case option.map Let_def
          length_Question length_Answer prod.case)
qed


lemma split_ci_find:
  "sep \<noteq> [] \<Longrightarrow>
   split_ci sep t =
     (case find_ci sep t of
        None \<Rightarrow> [t]
      | Some j \<Rightarrow> take j t # split_ci sep (drop (j + length sep) t))"
proof (induction t)
  case Nil
  then show ?case by (cases sep) simp_all
next
  case (Cons c cs)
  show ?case
  proof (cases "ci_prefix sep (c # cs)")
    case True
    then show ?thesis using Cons.prems
      by (simp only: split_ci.simps find_ci.simps if_True option.case take_0 add_0 simp_thms)
  next
    case False
    have f: "find_ci sep (c # cs) = map_option Suc (find_ci sep cs)"
      by (simp only: find_ci.simps False if_False)
    have s: "split_ci sep (c # cs) =
        (case split_ci sep cs of [] \<Rightarrow> [[c]] | p # ps \<Rightarrow> (c # p) # ps)"
      by (simp only: split_ci.simps False if_False simp_thms)
    show ?thesis
      by (cases "find_ci sep cs")
         (simp_all only: f s Cons.IH [OF Cons.prems] option.case option.map list.case
            take_Suc_Cons add_Suc drop_Suc_Cons)
  qed
qed

lemma split_ci_not_Nil: "split_ci sep t \<noteq> []"
  by (induction sep t rule: split_ci.induct) (auto split: list.splits)

lemma join_Cons: "join sep (x # ys) = (if ys = [] then x else x @ sep @ join sep ys)"
  by (cases ys) simp_all

lemma ci_prefix_take:
  "ci_prefix l t \<Longrightarrow> map canonicalize (take (length l) t) = map canonicalize l"
  by (induction l t rule: ci_prefix.induct) simp_all

lemma join_split_ci:
  "sep \<noteq> [] \<Longrightarrow> map canonicalize (join sep (split_ci sep t)) = map canonicalize t"
proof (induction "length t" arbitrary: t rule: less_induct)
  case less
  show ?case
  proof (cases "find_ci sep t")
    case None
    then show ?thesis by (simp add: split_ci_find [OF less.prems])
  next
    case (Some j)
    let ?rest = "drop (j + length sep) t"
    have pre: "ci_prefix sep (drop j t)" using Some by (rule find_ci_Some_prefix)
    have "drop j t \<noteq> []" using pre less.prems by (cases sep; cases "drop j t") simp_all
    then have "j < length t" by simp
    moreover have "0 < length sep" using less.prems by simp
    ultimately have "length t - (j + length sep) < length t" by arith
    then have "length ?rest < length t" by (simp only: length_drop)
    then have ih: "map canonicalize (join sep (split_ci sep ?rest)) = map canonicalize ?rest"
      using less.hyps less.prems by blast
    have decomp: "take j t @ take (length sep) (drop j t) @ drop (length sep) (drop j t) = t"
      by (simp only: append_take_drop_id)
    have "map canonicalize (take j t @ take (length sep) (drop j t) @ drop (length sep) (drop j t))
          = map canonicalize (take j t) @ map canonicalize sep
              @ map canonicalize (drop (length sep) (drop j t))"
      by (simp only: map_append ci_prefix_take [OF pre])
    then have "map canonicalize t =
        map canonicalize (take j t) @ map canonicalize sep
          @ map canonicalize (drop (length sep) (drop j t))"
      unfolding decomp .
    then have t: "map canonicalize t =
        map canonicalize (take j t) @ map canonicalize sep @ map canonicalize ?rest"
      by (simp only: drop_drop add.commute [of j])
    have "join sep (split_ci sep t) = take j t @ sep @ join sep (split_ci sep ?rest)"
      by (simp only: split_ci_find [OF less.prems, of t] Some option.case join_Cons
            split_ci_not_Nil if_False)
    then show ?thesis by (simp only: map_append ih t)
  qed
qed

lemma trim_trim: "trim (trim x) = trim x"
proof -
  have a: "dropWhile isWhiteSpace (rev (dropWhile isWhiteSpace (rev y)))
           = rev (dropWhile isWhiteSpace (rev (dropWhile isWhiteSpace y)))" for y
    by (induction y) (auto simp add: dropWhile_append dest: set_dropWhileD)
  show ?thesis
    unfolding trim_def rev_rev_ident a [of "dropWhile isWhiteSpace x"]
    by simp
qed

lemma trim_dropWhile: "trim (dropWhile isWhiteSpace x) = trim x"
  by (simp add: trim_def)

lemma parseQA_closed:
  "parseQA reply =
     (case strict_shape reply of
        Some (q, a) \<Rightarrow> Some (trim q, trim a)
      | None \<Rightarrow>
          (case find_ci ''Answer:'' reply of
             None \<Rightarrow> None
           | Some j \<Rightarrow>
               Some (trim (remove_first_ci ''Question:'' (take j reply)),
                     trim (join ''Answer:'' (split_ci ''Answer:'' (drop (j + 7) reply))))))"
proof (cases "strict_shape reply")
  case (Some qa)
  obtain q a where qa: "qa = (q, a)" by (cases qa)
  have "match_qa reply = Some (trim q, dropWhile isWhiteSpace a)"
    by (simp only: match_qa_strict_shape Some qa option.map prod.case)
  then have "parseQA reply = Some (trim (trim q), trim (dropWhile isWhiteSpace a))"
    by (simp only: parseQA_def option.case prod.case)
  then show ?thesis
    by (simp only: Some qa option.case prod.case trim_trim trim_dropWhile)
next
  case None
  have m: "match_qa reply = None"
    by (simp only: match_qa_strict_shape None option.map)
  have ne: "''Answer:'' \<noteq> []" by simp
  show ?thesis
  proof (cases "find_ci ''Answer:'' reply")
    case no: None
    have "split_ci ''Answer:'' reply = [reply]"
      by (simp only: split_ci_find [OF ne, of reply] no option.case)
    moreover have "\<not> 2 \<le> length [reply]" by simp
    ultimately have "parseQA reply = None"
      by (simp only: parseQA_def m option.case Let_def if_False)
    then show ?thesis by (simp only: None no option.case)
  next
    case (Some j)
    have "split_ci ''Answer:'' reply = take j reply # split_ci ''Answer:'' (drop (j + 7) reply)"
      by (simp only: split_ci_find [OF ne, of reply] Some option.case length_Answer)
    moreover have "2 \<le> length (take j reply # split_ci ''Answer:'' (drop (j + 7) reply))"
      using split_ci_not_Nil [of "''Answer:''" "drop (j + 7) reply"]
      by (cases "split_ci ''Answer:'' (drop (j + 7) reply)") simp_all
    ultimately have "parseQA reply =
        Some (trim (remove_first_ci ''Question:'' (take j reply)),
              trim (join ''Answer:'' (split_ci ''Answer:'' (drop (j + 7) reply))))"
      by (simp only: parseQA_def m option.case Let_def if_True list.sel)
    then show ?thesis by (simp only: None Some option.case)
  qed
qed

text \<open>
  Claim C8. The parser first applies the pattern, which finds the strict shape: the first
  "Question:" label and the first "Answer:" label after it, both compared without regard
  to case; the question is the trimmed text between the two labels and the answer the
  trimmed text after the second label. Only when the reply has no such shape it is split
  at its "Answer:" labels: without such a label there is no question and no answer;
  otherwise the question is the trimmed text before the first label, with a first
  "Question:" label removed, and the answer is the trimmed join of the parts after the
  first label, which is the text after the first label up to the case of the labels in
  it. When the result is missing or has an empty question or an empty answer, the handler
  answers with the parse error and leaves the state unchanged.
\<close>

theorem parseQA_strategies:
  "parseQA reply =
     (case strict_shape reply of
        Some (q, a) \<Rightarrow> Some (trim q, trim a)
      | None \<Rightarrow>
          (case find_ci ''Answer:'' reply of
             None \<Rightarrow> None
           | Some j \<Rightarrow>
               Some (trim (remove_first_ci ''Question:'' (take j reply)),
                     trim (join ''Answer:'' (split_ci ''Answer:'' (drop (j + 7) reply))))))
   \<and> map canonicalize (join ''Answer:'' (split_ci ''Answer:'' rest)) = map canonicalize rest
   \<and> match_qa reply
       = map_option (\<lambda>(q, a). (trim q, dropWhile isWhiteSpace a)) (strict_shape reply)
   \<and> ((case parseQA (trim content) of None \<Rightarrow> True | Some (q, a) \<Rightarrow> q = [] \<or> a = []) \<longrightarrow>
        get_question (Resolved content) random s =
          (Status500 ''Could not parse question/answer from AI response'', s))"
proof (intro conjI impI)
  show "map canonicalize (join ''Answer:'' (split_ci ''Answer:'' rest)) = map canonicalize rest"
    by (rule join_split_ci) simp
  assume "case parseQA (trim content) of None \<Rightarrow> True | Some (q, a) \<Rightarrow> q = [] \<or> a = []"
  then show "get_question (Resolved content) random s =
          (Status500 ''Could not parse question/answer from AI response'', s)"
    by (rule get_question_unparsed)
qed (rule parseQA_closed match_qa_strict_shape)+

theorem parseQA_strategies_witness:
  "parseQA ''Question: What is 2+2?  Answer: 4'' = Some (''What is 2+2?'', ''4'')
   \<and> parseQA ''What? ANSWER: 4 answer: 5'' = Some (''What?'', ''4 Answer: 5'')
   \<and> (case parseQA (trim '' Question: Answer: 42 '') of None \<Rightarrow> True
       | Some (q, a) \<Rightarrow> q = [] \<or> a = [])
   \<and> get_question (Resolved '' Question: Answer: 42 '') 0 two_questions =
        (Status500 ''Could not parse question/answer from AI response'', two_questions)"
proof -
  have c1: "(case strict_shape ''Question: What is 2+2?  Answer: 4'' of
        Some (q, a) \<Rightarrow> Some (trim q, trim a)
      | None \<Rightarrow>
          (case find_ci ''Answer:'' ''Question: What is 2+2?  Answer: 4'' of
             None \<Rightarrow> None
           | Some j \<Rightarrow>
               Some (trim (remove_first_ci ''Question:'' (take j ''Question: What is 2+2?  Answer: 4'')),
                     trim (join ''Answer:'' (split_ci ''Answer:''
                       (drop (j + 7) ''Question: What is 2+2?  Answer: 4''))))))
      = Some (''What is 2+2?'', ''4'')"
    by code_simp
  have c2: "(case strict_shape ''What? ANSWER: 4 answer: 5'' of
        Some (q, a) \<Rightarrow> Some (trim q, trim a)
      | None \<Rightarrow>
          (case find_ci ''Answer:'' ''What? ANSWER: 4 answer: 5'' of
             None \<Rightarrow> None
           | Some j \<Rightarrow>
               Some (trim (remove_first_ci ''Question:'' (take j ''What? ANSWER: 4 answer: 5'')),
                     trim (join ''Answer:'' (split_ci ''Answer:''
                       (drop (j + 7) ''What? ANSWER: 4 answer: 5''))))))
      = Some (''What?'', ''4 Answer: 5'')"
    by code_simp
  have c3: "case parseQA (trim '' Question: Answer: 42 '') of None \<Rightarrow> True
       | Some (q, a) \<Rightarrow> q = [] \<or> a = []"
    by code_simp
  note t1 = parseQA_strategies [of "''Question: What is 2+2?  Answer: 4''", THEN conjunct1]
  note t2 = parseQA_strategies [of "''What? ANSWER: 4 answer: 5''", THEN conjunct1]
  note t3 = parseQA_strategies [of _ _ "'' Question: Answer: 42 ''" 0 two_questions,
              THEN conjunct2, THEN conjunct2, THEN conjunct2, THEN mp, OF c3]
  show ?thesis using trans [OF t1 c1] trans [OF t2 c2] c3 t3 by blast
qed

end
